theory Spec2Isabelle
  imports Main "HOL-Library.Word"
begin

unbundle bit_operations_syntax

section \<open>Bytes, errors and results\<close>

type_synonym byte = "8 word"
type_synonym bytes = "byte list"
type_synonym u32 = "32 word"

text \<open>
  The error values of the \<open>errors\<close> package: a code, the format string and the
  arguments handed to it (the formatting itself is not modelled).
\<close>

datatype code = InvalidArgument | Internal | NotFound | AlreadyExists | Cancelled | Unknown

datatype fmt_arg = FStr string | FU32 u32

datatype error = Error code string "fmt_arg list"

fun err_code :: "error \<Rightarrow> code" where
  "err_code (Error c m as) = c"

text \<open>A call either returns a value, returns an error, or panics (a Go runtime panic).\<close>

datatype 'a res = Ok 'a | Err error | Panic

text \<open>A Go string is a byte sequence; \<open>[]byte(s)\<close> and \<open>string(b)\<close> convert.\<close>

definition str_bytes :: "string \<Rightarrow> bytes" where
  "str_bytes s = map (\<lambda>c. of_nat (of_char c)) s"

definition bytes_str :: "bytes \<Rightarrow> string" where
  "bytes_str bs = map (\<lambda>b. char_of (unat b)) bs"

section \<open>Keys (package keys)\<close>

text \<open>
  The elements of \<open>indexParts\<close> (\<open>[]interface{}\<close>): the scalar values the tuple layer
  carries. Integers (int64, and uint32 values, which lie in its range) are \<open>PInt\<close>; a
  float64 is its IEEE-754 bit pattern; date-times and the key sentinels are strings in this
  code base.
\<close>

datatype part =
    PNil
  | PBytes bytes
  | PString string
  | PInt int
  | PDouble "64 word"
  | PUUID bytes

fun supported :: "part \<Rightarrow> bool" where
  "supported (PInt i) = (- (2 ^ 63) \<le> i \<and> i < 2 ^ 63)"
| "supported (PUUID u) = (length u = 16)"
| "supported _ = True"

record tableKey =
  table :: bytes
  indexParts :: "part list"

definition NewKey :: "bytes \<Rightarrow> part list \<Rightarrow> tableKey" where
  "NewKey tbl parts = \<lparr>table = tbl, indexParts = parts\<rparr>"

subsection \<open>The tuple layer\<close>

text \<open>
  Modelled from the spec: \<open>subspace.Pack\<close>, \<open>subspace.Unpack\<close> and the tuple encoding
  behind them belong to the FoundationDB binding and are not part of the sources. The spec
  (4.1) gives the format: each element is a one-byte type tag followed by an order-preserving
  payload; integers are big-endian within a length-tagged family, negative ones complemented;
  strings and byte arrays are null-terminated with 0x00 escaped; floats are sign-flipped
  IEEE-754. The tag values are those of the FoundationDB tuple layer. The decoder rejects
  truncated input, unknown tags and a table-prefix mismatch.
\<close>

fun be_bytes :: "nat \<Rightarrow> nat \<Rightarrow> bytes" where
  "be_bytes 0 v = []"
| "be_bytes (Suc k) v = be_bytes k (v div 256) @ [of_nat (v mod 256)]"

definition be_nat :: "bytes \<Rightarrow> nat" where
  "be_nat bs = foldl (\<lambda>a b. a * 256 + unat b) 0 bs"

fun byte_len :: "nat \<Rightarrow> nat" where
  "byte_len v = (if v = 0 then 0 else Suc (byte_len (v div 256)))"

declare byte_len.simps [simp del]

fun escape :: "bytes \<Rightarrow> bytes" where
  "escape [] = []"
| "escape (b # bs) = (if b = 0 then 0 # 255 # escape bs else b # escape bs)"

definition float_flip :: "64 word \<Rightarrow> 64 word" where
  "float_flip w = (if bit w 63 then NOT w else w XOR push_bit 63 1)"

definition float_unflip :: "64 word \<Rightarrow> 64 word" where
  "float_unflip w = (if bit w 63 then w XOR push_bit 63 1 else NOT w)"

fun encode_part :: "part \<Rightarrow> bytes" where
  "encode_part PNil = [0]"
| "encode_part (PBytes bs) = 1 # escape bs @ [0]"
| "encode_part (PString s) = 2 # escape (str_bytes s) @ [0]"
| "encode_part (PInt i) =
     (if i = 0 then [20]
      else if 0 < i then
        (let n = byte_len (nat i) in of_nat (20 + n) # be_bytes n (nat i))
      else
        (let n = byte_len (nat (- i)) in of_nat (20 - n) # be_bytes n (nat (i + 256 ^ n - 1))))"
| "encode_part (PDouble w) = 33 # be_bytes 8 (unat (float_flip w))"
| "encode_part (PUUID u) = 48 # u"

definition tuple_Pack :: "part list \<Rightarrow> bytes" where
  "tuple_Pack ps = concat (map encode_part ps)"

fun unescape :: "bytes \<Rightarrow> (bytes \<times> bytes) option" where
  "unescape [] = None"
| "unescape [b] = (if b = 0 then Some ([], []) else None)"
| "unescape (b # c # bs) =
     (if b = 0 then
        (if c = 255 then map_option (\<lambda>(x, r). (0 # x, r)) (unescape bs) else Some ([], c # bs))
      else map_option (\<lambda>(x, r). (b # x, r)) (unescape (c # bs)))"

definition take_n :: "nat \<Rightarrow> bytes \<Rightarrow> (bytes \<times> bytes) option" where
  "take_n n bs = (if length bs < n then None else Some (take n bs, drop n bs))"

definition err_truncated :: error where
  "err_truncated = Error Unknown ''truncated tuple element'' []"

definition err_unknown_tag :: error where
  "err_unknown_tag = Error Unknown ''unknown tuple type tag'' []"

definition err_not_in_subspace :: error where
  "err_not_in_subspace = Error Unknown ''key is not in subspace'' []"

fun decode_part :: "bytes \<Rightarrow> error + (part \<times> bytes)" where
  "decode_part [] = Inl err_truncated"
| "decode_part (t # bs) =
     (if t = 0 then Inr (PNil, bs)
      else if t = 1 then
        (case unescape bs of None \<Rightarrow> Inl err_truncated | Some (x, r) \<Rightarrow> Inr (PBytes x, r))
      else if t = 2 then
        (case unescape bs of None \<Rightarrow> Inl err_truncated
         | Some (x, r) \<Rightarrow> Inr (PString (bytes_str x), r))
      else if 12 \<le> t \<and> t \<le> 28 then
        (let n = (if 20 \<le> t then unat t - 20 else 20 - unat t) in
         case take_n n bs of None \<Rightarrow> Inl err_truncated
         | Some (x, r) \<Rightarrow>
             Inr (PInt (if 20 \<le> t then int (be_nat x) else int (be_nat x) - (256 ^ n - 1)), r))
      else if t = 33 then
        (case take_n 8 bs of None \<Rightarrow> Inl err_truncated
         | Some (x, r) \<Rightarrow> Inr (PDouble (float_unflip (of_nat (be_nat x))), r))
      else if t = 48 then
        (case take_n 16 bs of None \<Rightarrow> Inl err_truncated | Some (x, r) \<Rightarrow> Inr (PUUID x, r))
      else Inl err_unknown_tag)"

lemma unescape_shorter: "unescape bs = Some (x, r) \<Longrightarrow> length r < length bs"
proof (induction bs arbitrary: x r rule: unescape.induct)
  case 1
  then show ?case by simp
next
  case (2 b)
  then show ?case by (simp split: if_splits)
next
  case (3 b c bs)
  then show ?case by (fastforce split: if_splits)
qed

lemma take_n_shorter: "take_n n bs = Some (x, r) \<Longrightarrow> length r \<le> length bs"
  by (auto simp: take_n_def split: if_splits)

lemma decode_part_shorter: "decode_part bs = Inr (p, r) \<Longrightarrow> length r < length bs"
proof (cases bs)
  case Nil
  then show "decode_part bs = Inr (p, r) \<Longrightarrow> length r < length bs" by simp
next
  case (Cons t ts)
  assume "decode_part bs = Inr (p, r)"
  with Cons show "length r < length bs"
    by (auto simp: Let_def split: if_splits option.splits
        dest: unescape_shorter take_n_shorter)
qed

declare decode_part.simps [simp del]

function decode_tuple :: "bytes \<Rightarrow> error + part list" where
  "decode_tuple [] = Inr []"
| "decode_tuple (b # bs) =
     (case decode_part (b # bs) of
        Inl e \<Rightarrow> Inl e
      | Inr (p, r) \<Rightarrow> (case decode_tuple r of Inl e \<Rightarrow> Inl e | Inr ps \<Rightarrow> Inr (p # ps)))"
  by pat_completeness auto
termination decode_tuple
proof (relation "measure length")
  show "wf (measure length)" by simp
next
  fix b :: byte and bs :: bytes and x :: "part \<times> bytes" and p r
  assume "decode_part (b # bs) = Inr x" and "(p, r) = x"
  then have "length r < length (b # bs)"
    using decode_part_shorter [of "b # bs" p r] by simp
  then show "(r, b # bs) \<in> measure length" by simp
qed

definition subspace_Pack :: "bytes \<Rightarrow> part list \<Rightarrow> bytes" where
  "subspace_Pack prefix ps = prefix @ tuple_Pack ps"

definition subspace_Unpack :: "bytes \<Rightarrow> bytes \<Rightarrow> error + part list" where
  "subspace_Unpack prefix key =
     (if take (length prefix) key \<noteq> prefix then Inl err_not_in_subspace
      else decode_tuple (drop (length prefix) key))"

subsection \<open>tableKey\<close>

definition SerializeToBytes :: "tableKey \<Rightarrow> bytes" where
  "SerializeToBytes p =
     (if length (indexParts p) = 0 then table p
      else subspace_Pack (table p) (indexParts p))"

definition FromBinary :: "bytes \<Rightarrow> bytes \<Rightarrow> error + tableKey" where
  "FromBinary tbl fdbKey =
     (case subspace_Unpack tbl fdbKey of
        Inl e \<Rightarrow> Inl e
      | Inr tp \<Rightarrow> Inr (NewKey tbl tp))"

section \<open>Primary index metadata (package metadata)\<close>

text \<open>
  \<open>internal.TableData\<close>, the value envelope: only \<open>Ver\<close> (int32) and \<open>RawData\<close> are read
  by the code below.
\<close>

record TableData =
  Ver :: "32 word"
  RawData :: bytes

record PrimaryIndexMetadata =
  ID :: u32
  Name :: string

definition indexMetaValueVersion :: "32 word" where
  "indexMetaValueVersion = 1"

text \<open>
  Modelled from the spec: \<open>ByteToUInt32\<close> and \<open>UInt32ToByte\<close> are helpers of the metadata
  package that are not part of the sources; the spec calls them the big-endian uint32
  interpretation of four raw bytes. Reading four bytes from a shorter slice is an index out
  of range, a panic.
\<close>

definition ByteToUInt32 :: "bytes \<Rightarrow> u32 res" where
  "ByteToUInt32 b = (if length b < 4 then Panic else Ok (of_nat (be_nat (take 4 b))))"

definition UInt32ToByte :: "u32 \<Rightarrow> bytes" where
  "UInt32ToByte v = be_bytes 4 (unat v)"

text \<open>
  The JSON library (jsoniter) is external: its encoder and decoder are parameters.
  \<open>unmarshal\<close> returns \<open>None\<close> when decoding fails.
\<close>

record json =
  marshal :: "PrimaryIndexMetadata option \<Rightarrow> bytes"
  unmarshal :: "bytes \<Rightarrow> PrimaryIndexMetadata option"

definition decodeMetadata :: "json \<Rightarrow> string \<Rightarrow> TableData \<Rightarrow> PrimaryIndexMetadata res" where
  "decodeMetadata js name payload =
     (if Ver payload = 0 then
        (case ByteToUInt32 (RawData payload) of
           Ok i \<Rightarrow> Ok \<lparr>ID = i, Name = []\<rparr>
         | Err e \<Rightarrow> Err e
         | Panic \<Rightarrow> Panic)
      else
        (case unmarshal js (RawData payload) of
           None \<Rightarrow> Err (Error Internal ''failed to unmarshal collection metadata'' [])
         | Some metadata \<Rightarrow> Ok metadata))"

text \<open>
  \<open>validateArgs\<close>: the last argument is a pointer to the metadata pointer; \<open>None\<close> is a nil
  outer pointer (no payload to check), \<open>Some None\<close> a nil payload.
\<close>

definition validateArgs ::
  "u32 \<Rightarrow> u32 \<Rightarrow> u32 \<Rightarrow> string \<Rightarrow> PrimaryIndexMetadata option option \<Rightarrow> error option" where
  "validateArgs nsID dbID collID name metadata =
     (if nsID = 0 \<or> dbID = 0 \<or> collID = 0 then Some (Error InvalidArgument ''invalid id'' [])
      else if name = [] then Some (Error InvalidArgument ''empty index name'' [])
      else if metadata \<noteq> None \<and> the metadata = None then
        Some (Error InvalidArgument ''invalid nil payload'' [])
      else None)"

text \<open>
  Modelled from the spec: the key constants of the metadata package (\<open>encKeyVersion\<close>,
  \<open>indexKey\<close>, \<open>keyEnd\<close>, \<open>keyDroppedEnd\<close>) are not part of the sources; the values are
  those of the key layout in the spec (6).
\<close>

definition encKeyVersion :: byte where
  "encKeyVersion = 1"

definition indexKey :: part where
  "indexKey = PString ''index''"

definition keyEnd :: part where
  "keyEnd = PBytes [254]"

definition keyDroppedEnd :: part where
  "keyDroppedEnd = PBytes [253]"

record metadataSubspace =
  SubspaceName :: bytes
  KeyVersion :: bytes

definition getKey :: "metadataSubspace \<Rightarrow> u32 \<Rightarrow> u32 \<Rightarrow> u32 \<Rightarrow> string \<Rightarrow> tableKey" where
  "getKey c nsID dbID collID name =
     (if name = [] then
        NewKey (SubspaceName c)
          [PBytes (KeyVersion c), PBytes (UInt32ToByte nsID), PBytes (UInt32ToByte dbID),
           PBytes (UInt32ToByte collID), indexKey]
      else
        NewKey (SubspaceName c)
          [PBytes (KeyVersion c), PBytes (UInt32ToByte nsID), PBytes (UInt32ToByte dbID),
           PBytes (UInt32ToByte collID), indexKey, PString name, keyEnd])"

subsection \<open>The transaction and the metadata subspace\<close>

text \<open>
  Modelled from the spec: the transaction (4.2) and the generic metadata operations
  \<open>insertMetadata\<close>, \<open>getPayload\<close>, \<open>updateMetadata\<close>, \<open>deleteMetadata\<close>,
  \<open>softDeleteMetadata\<close> and \<open>listMetadata\<close> (4.3, 4.4) are not part of the sources. A
  transaction is the key-value contents together with the log of the operations issued
  against the substrate. Each metadata operation receives the outcome of the argument
  validation first and returns it, before any operation on the substrate, when it is an
  error. Insert fails if the key exists; update requires prior existence; delete is
  idempotent; soft-delete rewrites the record under the dropped key, its payload preserved.
\<close>

datatype tx_op = OpInsert bytes | OpReplace bytes | OpDelete bytes | OpRead bytes

record Tx =
  kv :: "bytes \<rightharpoonup> TableData"
  fault :: "bytes \<rightharpoonup> error"
  oplog :: "tx_op list"

definition tx_Insert :: "Tx \<Rightarrow> tableKey \<Rightarrow> TableData \<Rightarrow> error option \<times> Tx" where
  "tx_Insert t key data =
     (let k = SerializeToBytes key; t' = t\<lparr>oplog := oplog t @ [OpInsert k]\<rparr> in
      case fault t k of
        Some e \<Rightarrow> (Some e, t')
      | None \<Rightarrow>
          (if kv t k \<noteq> None then (Some (Error AlreadyExists ''duplicate key value'' []), t')
           else (None, t'\<lparr>kv := (kv t)(k \<mapsto> data)\<rparr>)))"

definition tx_Replace :: "Tx \<Rightarrow> tableKey \<Rightarrow> TableData \<Rightarrow> bool \<Rightarrow> error option \<times> Tx" where
  "tx_Replace t key data isUpdate =
     (let k = SerializeToBytes key; t' = t\<lparr>oplog := oplog t @ [OpReplace k]\<rparr> in
      case fault t k of
        Some e \<Rightarrow> (Some e, t')
      | None \<Rightarrow>
          (if isUpdate \<and> kv t k = None then (Some (Error NotFound ''not found'' []), t')
           else (None, t'\<lparr>kv := (kv t)(k \<mapsto> data)\<rparr>)))"

definition tx_Delete :: "Tx \<Rightarrow> tableKey \<Rightarrow> error option \<times> Tx" where
  "tx_Delete t key =
     (let k = SerializeToBytes key; t' = t\<lparr>oplog := oplog t @ [OpDelete k]\<rparr> in
      case fault t k of
        Some e \<Rightarrow> (Some e, t')
      | None \<Rightarrow> (None, t'\<lparr>kv := (kv t)(k := None)\<rparr>))"

text \<open>
  \<open>Read\<close> is a point read: the iterator it returns holds the row stored under the key, if
  there is one.
\<close>

definition tx_Read :: "Tx \<Rightarrow> tableKey \<Rightarrow> (error + TableData option) \<times> Tx" where
  "tx_Read t key =
     (let k = SerializeToBytes key; t' = t\<lparr>oplog := oplog t @ [OpRead k]\<rparr> in
      case fault t k of
        Some e \<Rightarrow> (Inl e, t')
      | None \<Rightarrow> (Inr (kv t k), t'))"

definition insertMetadata ::
  "json \<Rightarrow> Tx \<Rightarrow> error option \<Rightarrow> tableKey \<Rightarrow> 32 word \<Rightarrow> PrimaryIndexMetadata option
    \<Rightarrow> error option \<times> Tx" where
  "insertMetadata js t invalidArgs key ver metadata =
     (case invalidArgs of
        Some e \<Rightarrow> (Some e, t)
      | None \<Rightarrow> tx_Insert t key \<lparr>Ver = ver, RawData = marshal js metadata\<rparr>)"

definition updateMetadata ::
  "json \<Rightarrow> Tx \<Rightarrow> error option \<Rightarrow> tableKey \<Rightarrow> 32 word \<Rightarrow> PrimaryIndexMetadata option
    \<Rightarrow> error option \<times> Tx" where
  "updateMetadata js t invalidArgs key ver metadata =
     (case invalidArgs of
        Some e \<Rightarrow> (Some e, t)
      | None \<Rightarrow> tx_Replace t key \<lparr>Ver = ver, RawData = marshal js metadata\<rparr> True)"

definition getPayload ::
  "Tx \<Rightarrow> error option \<Rightarrow> tableKey \<Rightarrow> (error + TableData option) \<times> Tx" where
  "getPayload t invalidArgs key =
     (case invalidArgs of
        Some e \<Rightarrow> (Inl e, t)
      | None \<Rightarrow> tx_Read t key)"

definition deleteMetadata :: "Tx \<Rightarrow> error option \<Rightarrow> tableKey \<Rightarrow> error option \<times> Tx" where
  "deleteMetadata t invalidArgs key =
     (case invalidArgs of
        Some e \<Rightarrow> (Some e, t)
      | None \<Rightarrow> tx_Delete t key)"

definition softDeleteMetadata ::
  "Tx \<Rightarrow> error option \<Rightarrow> tableKey \<Rightarrow> tableKey \<Rightarrow> error option \<times> Tx" where
  "softDeleteMetadata t invalidArgs oldKey newKey =
     (case invalidArgs of
        Some e \<Rightarrow> (Some e, t)
      | None \<Rightarrow>
          (let (payload, t1) = tx_Read t oldKey in
           case payload of
             Inl e \<Rightarrow> (Some e, t1)
           | Inr None \<Rightarrow> (Some (Error NotFound ''not found'' []), t1)
           | Inr (Some data) \<Rightarrow>
               (let (e2, t2) = tx_Delete t1 oldKey in
                case e2 of
                  Some e \<Rightarrow> (Some e, t2)
                | None \<Rightarrow> tx_Replace t2 newKey data False)))"

text \<open>
  \<open>listMetadata\<close> scans the prefix and calls \<open>visit\<close> on every row, in key order, stopping
  at the first error. The rows the scan delivers, already parsed into (dropped, name,
  payload), and the error that may end the scan are its input here.
\<close>

type_synonym meta_row = "bool \<times> string \<times> TableData"

fun listMetadata ::
  "meta_row list \<Rightarrow> error option \<Rightarrow> ('s \<Rightarrow> meta_row \<Rightarrow> 's res) \<Rightarrow> 's \<Rightarrow> 's res" where
  "listMetadata [] scanErr visit s = (case scanErr of None \<Rightarrow> Ok s | Some e \<Rightarrow> Err e)"
| "listMetadata (r # rs) scanErr visit s =
     (case visit s r of
        Ok s' \<Rightarrow> listMetadata rs scanErr visit s'
      | Err e \<Rightarrow> Err e
      | Panic \<Rightarrow> Panic)"

subsection \<open>PrimaryIndexSubspace\<close>

definition ErrNotFound :: error where
  "ErrNotFound = Error NotFound ''not found'' []"

definition insert_index ::
  "json \<Rightarrow> metadataSubspace \<Rightarrow> Tx \<Rightarrow> u32 \<Rightarrow> u32 \<Rightarrow> u32 \<Rightarrow> string
    \<Rightarrow> PrimaryIndexMetadata option \<Rightarrow> error option \<times> Tx" where
  "insert_index js c t nsID dbID collID name metadata =
     insertMetadata js t
       (validateArgs nsID dbID collID name (Some metadata))
       (getKey c nsID dbID collID name)
       indexMetaValueVersion
       metadata"

definition Get ::
  "json \<Rightarrow> metadataSubspace \<Rightarrow> Tx \<Rightarrow> u32 \<Rightarrow> u32 \<Rightarrow> u32 \<Rightarrow> string
    \<Rightarrow> PrimaryIndexMetadata res \<times> Tx" where
  "Get js c t nsID dbID collID name =
     (let (r, t') = getPayload t (validateArgs nsID dbID collID name None)
                      (getKey c nsID dbID collID name) in
      case r of
        Inl e \<Rightarrow> (Err e, t')
      | Inr None \<Rightarrow> (Err ErrNotFound, t')
      | Inr (Some payload) \<Rightarrow> (decodeMetadata js name payload, t'))"

definition Update ::
  "json \<Rightarrow> metadataSubspace \<Rightarrow> Tx \<Rightarrow> u32 \<Rightarrow> u32 \<Rightarrow> u32 \<Rightarrow> string
    \<Rightarrow> PrimaryIndexMetadata option \<Rightarrow> error option \<times> Tx" where
  "Update js c t nsID dbID collID name metadata =
     updateMetadata js t
       (validateArgs nsID dbID collID name (Some metadata))
       (getKey c nsID dbID collID name)
       indexMetaValueVersion
       metadata"

definition delete_index ::
  "metadataSubspace \<Rightarrow> Tx \<Rightarrow> u32 \<Rightarrow> u32 \<Rightarrow> u32 \<Rightarrow> string \<Rightarrow> error option \<times> Tx" where
  "delete_index c t nsID dbID collID name =
     deleteMetadata t
       (validateArgs nsID dbID collID name None)
       (getKey c nsID dbID collID name)"

definition softDelete ::
  "metadataSubspace \<Rightarrow> Tx \<Rightarrow> u32 \<Rightarrow> u32 \<Rightarrow> u32 \<Rightarrow> string \<Rightarrow> error option \<times> Tx" where
  "softDelete c t nsID dbID collID name =
     (let newKey = NewKey (SubspaceName c)
            [PBytes (KeyVersion c), PBytes (UInt32ToByte nsID), PBytes (UInt32ToByte dbID),
             PBytes (UInt32ToByte collID), indexKey, PString name, keyDroppedEnd] in
      softDeleteMetadata t
        (validateArgs nsID dbID collID name None)
        (getKey c nsID dbID collID name)
        newKey)"

text \<open>
  \<open>list\<close>: the callback handed to \<open>listMetadata\<close> fills the two maps; then the
  retrogression check ranges over the dropped map. Go leaves the order of a range over a
  map open: the order is the list of entries \<open>order\<close>, an enumeration of the dropped map.
\<close>

type_synonym index_maps = "(string \<rightharpoonup> PrimaryIndexMetadata) \<times> (string \<rightharpoonup> u32)"

definition list_visit :: "json \<Rightarrow> index_maps \<Rightarrow> meta_row \<Rightarrow> index_maps res" where
  "list_visit js s r =
     (case s of (indexes, droppedIndexes) \<Rightarrow>
      case r of (dropped, name, data) \<Rightarrow>
        (case decodeMetadata js name data of
           Err e \<Rightarrow> Err e
         | Panic \<Rightarrow> Panic
         | Ok m \<Rightarrow>
             (if dropped then Ok (indexes, droppedIndexes(name \<mapsto> ID m))
              else Ok (indexes(name \<mapsto> m), droppedIndexes))))"

fun retrogression_check ::
  "(string \<rightharpoonup> PrimaryIndexMetadata) \<Rightarrow> (string \<times> u32) list \<Rightarrow> error option" where
  "retrogression_check indexes [] = None"
| "retrogression_check indexes ((droppedC, droppedValue) # rest) =
     (case indexes droppedC of
        Some createdValue \<Rightarrow>
          (if droppedValue \<ge> ID createdValue then
             Some (Error Internal
               ''retrogression found in indexes assigned value index [%s] droppedValue [%d] createdValue [%d]''
               [FStr droppedC, FU32 droppedValue, FU32 (ID createdValue)])
           else retrogression_check indexes rest)
      | None \<Rightarrow> retrogression_check indexes rest)"

definition list_fold :: "json \<Rightarrow> meta_row list \<Rightarrow> error option \<Rightarrow> index_maps res" where
  "list_fold js rows scanErr = listMetadata rows scanErr (list_visit js) (Map.empty, Map.empty)"

definition list_indexes ::
  "json \<Rightarrow> meta_row list \<Rightarrow> error option \<Rightarrow> (string \<times> u32) list
    \<Rightarrow> (string \<rightharpoonup> PrimaryIndexMetadata) res" where
  "list_indexes js rows scanErr order =
     (case list_fold js rows scanErr of
        Err e \<Rightarrow> Err e
      | Panic \<Rightarrow> Panic
      | Ok (indexes, droppedIndexes) \<Rightarrow>
          (case retrogression_check indexes order of
             Some e \<Rightarrow> Err e
           | None \<Rightarrow> Ok indexes))"

section \<open>Secondary index planning and reading (package database)\<close>

subsection \<open>Schema, filters and plans\<close>

text \<open>
  Modelled from the spec: the packages \<open>schema\<close>, \<open>value\<close> and \<open>filter\<close> are not part of
  the sources. The types below are the data model of the spec (3): field types, queryable
  fields (only active and indexed ones take part in planning), leaf filters on one field,
  and plans.
\<close>

datatype FieldType =
    UnknownType | NullType | BoolType | Int32Type | Int64Type | DoubleType | StringType
  | ByteType | UUIDType | DateTimeType | ArrayType | ObjectType

datatype FieldState = FieldActive | FieldWriting | FieldDeleted

record QueryableField =
  FieldName :: string
  FieldDataType :: FieldType
  Indexed :: bool
  State :: FieldState

record DefaultCollection =
  EncodedName :: bytes
  EncodedTableIndexName :: bytes
  SecondaryIndexKeyword :: string
  QueryableFields :: "QueryableField list"

definition GetActiveIndexedFields :: "DefaultCollection \<Rightarrow> QueryableField list" where
  "GetActiveIndexedFields c =
     filter (\<lambda>f. Indexed f \<and> State f = FieldActive) (QueryableFields c)"

record Value =
  ValueDataType :: FieldType
  AsInterface :: part

datatype Matcher = EQ | GT | GTE | LT | LTE

record Selector =
  SelField :: string
  SelMatcher :: Matcher
  SelValue :: Value

datatype QueryPlanType = FULLRANGE | RANGE | EQUAL

record QueryPlan =
  QueryType :: QueryPlanType
  DataType :: FieldType
  Keys :: "tableKey list"

type_synonym key_encoder = "part list \<Rightarrow> error + tableKey"
type_synonym parts_builder = "string \<Rightarrow> Value \<Rightarrow> part list"
type_synonym plan_builder =
  "key_encoder \<Rightarrow> parts_builder \<Rightarrow> Selector list \<Rightarrow> QueryableField list
    \<Rightarrow> error + QueryPlan list"

text \<open>
  The functions of the absent packages that \<open>BuildSecondaryIndexKeys\<close> calls are its
  environment: the two builders, the sort of the range plans, the type order of a value and
  the constructor of a secondary key.
\<close>

record planner_env =
  eqKeyBuilder_Build :: plan_builder
  rangeKeyBuilder_Build :: plan_builder
  SortQueryPlans :: "QueryPlan list \<Rightarrow> QueryPlan list"
  ToSecondaryOrder :: "FieldType \<Rightarrow> Value \<Rightarrow> int"
  newKeyWithPrimaryKey :: "part list \<Rightarrow> bytes \<Rightarrow> string \<Rightarrow> string \<Rightarrow> tableKey"

subsection \<open>BuildSecondaryIndexKeys\<close>

definition indexedDataType :: "QueryPlan \<Rightarrow> bool" where
  "indexedDataType queryPlan =
     (case DataType queryPlan of
        ByteType \<Rightarrow> False
      | UnknownType \<Rightarrow> False
      | ArrayType \<Rightarrow> False
      | _ \<Rightarrow> True)"

text \<open>The loop \<open>for _, plan := range plans { if indexedDataType(plan) { return &plan } }\<close>.\<close>

fun first_indexed :: "QueryPlan list \<Rightarrow> QueryPlan option" where
  "first_indexed [] = None"
| "first_indexed (plan # plans) = (if indexedDataType plan then Some plan else first_indexed plans)"

text \<open>The two closures \<open>encoder\<close> and \<open>buildIndexParts\<close> handed to the builders.\<close>

definition encoder :: "planner_env \<Rightarrow> DefaultCollection \<Rightarrow> key_encoder" where
  "encoder env c parts =
     Inr (newKeyWithPrimaryKey env parts
            (EncodedTableIndexName c) (SecondaryIndexKeyword c) ''kvs'')"

definition buildIndexParts :: "planner_env \<Rightarrow> parts_builder" where
  "buildIndexParts env fieldName val =
     (let typeOrder = ToSecondaryOrder env (ValueDataType val) val in
      [PString fieldName, PInt typeOrder, AsInterface val])"

definition eqPlan ::
  "planner_env \<Rightarrow> DefaultCollection \<Rightarrow> Selector list \<Rightarrow> error + QueryPlan list" where
  "eqPlan env c queryFilters =
     eqKeyBuilder_Build env (encoder env c) (buildIndexParts env) queryFilters
       (GetActiveIndexedFields c)"

definition rangePlans ::
  "planner_env \<Rightarrow> DefaultCollection \<Rightarrow> Selector list \<Rightarrow> error + QueryPlan list" where
  "rangePlans env c queryFilters =
     rangeKeyBuilder_Build env (encoder env c) (buildIndexParts env) queryFilters
       (GetActiveIndexedFields c)"

definition BuildSecondaryIndexKeys ::
  "planner_env \<Rightarrow> DefaultCollection \<Rightarrow> Selector list \<Rightarrow> error + QueryPlan" where
  "BuildSecondaryIndexKeys env c queryFilters =
     (if length queryFilters = 0 then
        Inl (Error InvalidArgument ''Cannot index with an empty filter'' [])
      else if length (GetActiveIndexedFields c) = 0 then
        Inl (Error InvalidArgument ''No indexable fields'' [])
      else
        (case (case eqPlan env c queryFilters of
                 Inl e \<Rightarrow> None
               | Inr plans \<Rightarrow> first_indexed plans) of
           Some plan \<Rightarrow> Inr plan
         | None \<Rightarrow>
             (case rangePlans env c queryFilters of
                Inl e \<Rightarrow> Inl e
              | Inr plans \<Rightarrow>
                  (if length plans = 0 then
                     Inl (Error InvalidArgument ''Could not find a query range'' [])
                   else
                     (case first_indexed (SortQueryPlans env plans) of
                        Some plan \<Rightarrow> Inr plan
                      | None \<Rightarrow>
                          Inl (Error InvalidArgument
                                 ''Could not find a useuable query plan'' []))))))"

text \<open>
  Modelled from the spec: the equality builder of package \<open>filter\<close> (4.6). It matches the
  filters \<open>field == literal\<close> on indexed fields and builds one candidate plan for each
  indexed field that has an equality filter; each plan is \<open>EQUAL\<close>, carries the type of the
  field and one key for each distinct literal.
\<close>

definition eq_literals :: "Selector list \<Rightarrow> string \<Rightarrow> Value list" where
  "eq_literals filters name =
     remdups (map SelValue (filter (\<lambda>s. SelField s = name \<and> SelMatcher s = EQ) filters))"

fun encode_all :: "key_encoder \<Rightarrow> part list list \<Rightarrow> error + tableKey list" where
  "encode_all enc [] = Inr []"
| "encode_all enc (ps # pss) =
     (case enc ps of
        Inl e \<Rightarrow> Inl e
      | Inr k \<Rightarrow> (case encode_all enc pss of Inl e \<Rightarrow> Inl e | Inr ks \<Rightarrow> Inr (k # ks)))"

fun spec_eqKeyBuilder_Build :: plan_builder where
  "spec_eqKeyBuilder_Build enc build filters [] = Inr []"
| "spec_eqKeyBuilder_Build enc build filters (f # fs) =
     (case spec_eqKeyBuilder_Build enc build filters fs of
        Inl e \<Rightarrow> Inl e
      | Inr plans \<Rightarrow>
          (let lits = eq_literals filters (FieldName f) in
           if lits = [] then Inr plans
           else
             (case encode_all enc (map (build (FieldName f)) lits) of
                Inl e \<Rightarrow> Inl e
              | Inr ks \<Rightarrow>
                  Inr (\<lparr>QueryType = EQUAL, DataType = FieldDataType f, Keys = ks\<rparr> # plans))))"

text \<open>
  The indexable types in the words of the spec: every type except \<open>Byte\<close>, \<open>Unknown\<close> and
  \<open>Array\<close>.
\<close>

definition indexable :: "FieldType \<Rightarrow> bool" where
  "indexable t = (t \<noteq> ByteType \<and> t \<noteq> UnknownType \<and> t \<noteq> ArrayType)"


subsection \<open>SecondaryIndexReaderImpl\<close>

record Row =
  Key :: bytes
  Data :: TableData

text \<open>
  Modelled from the spec: the iterator over the secondary index (\<open>Iterator\<close>, created by
  \<open>NewScanIterator\<close> or \<open>NewKeyIterator\<close>) is not part of the sources. It is finite and
  forward-only (4.2): the rows it will deliver, possibly ended by a failure of the
  substrate, after which \<open>Next\<close> returns false and \<open>Interrupted\<close> returns the error.
\<close>

datatype iter_event = Item Row | Fail error

record Iterator =
  events :: "iter_event list"
  interrupted :: "error option"

definition Iterator_Next :: "Iterator \<Rightarrow> Row option \<times> Iterator" where
  "Iterator_Next it =
     (case events it of
        [] \<Rightarrow> (None, it)
      | Item r # es \<Rightarrow> (Some r, it\<lparr>events := es\<rparr>)
      | Fail e # es \<Rightarrow> (None, it\<lparr>events := [], interrupted := Some e\<rparr>))"

definition PrimaryKeyPos :: nat where
  "PrimaryKeyPos = 6"

record SecondaryIndexReaderImpl =
  coll :: DefaultCollection
  tx :: Tx
  err :: "error option"
  queryPlan :: QueryPlan
  kvIter :: Iterator

text \<open>
  \<open>Next\<close> returns the boolean, the row behind the pointer it was given and the reader
  after the call; \<open>None\<close> is the runtime panic of the slice expression
  \<open>indexKey.IndexParts()[PrimaryKeyPos:]\<close> on fewer than \<open>PrimaryKeyPos\<close> parts.
\<close>

definition Next ::
  "SecondaryIndexReaderImpl \<Rightarrow> Row \<Rightarrow> (bool \<times> Row \<times> SecondaryIndexReaderImpl) option" where
  "Next it row =
     (if err it \<noteq> None then Some (False, row, it)
      else if interrupted (kvIter it) \<noteq> None then
        Some (False, row, it\<lparr>err := interrupted (kvIter it)\<rparr>)
      else
        (case Iterator_Next (kvIter it) of
           (None, k') \<Rightarrow> Some (False, row, it\<lparr>kvIter := k'\<rparr>)
         | (Some indexRow, k') \<Rightarrow>
             (let it1 = it\<lparr>kvIter := k'\<rparr> in
              case FromBinary (EncodedTableIndexName (coll it1)) (Key indexRow) of
                Inl e \<Rightarrow> Some (False, row, it1\<lparr>err := Some e\<rparr>)
              | Inr idxKey \<Rightarrow>
                  (if length (indexParts idxKey) < PrimaryKeyPos then None
                   else
                     (let pks = drop PrimaryKeyPos (indexParts idxKey);
                          pkIndexParts = NewKey (EncodedName (coll it1)) pks in
                      case tx_Read (tx it1) pkIndexParts of
                        (Inl e, t') \<Rightarrow> Some (False, row, it1\<lparr>tx := t', err := Some e\<rparr>)
                      | (Inr None, t') \<Rightarrow> Some (False, row, it1\<lparr>tx := t'\<rparr>)
                      | (Inr (Some data), t') \<Rightarrow>
                          Some (True, \<lparr>Key = SerializeToBytes pkIndexParts, Data = data\<rparr>,
                                it1\<lparr>tx := t'\<rparr>))))))"

definition Interrupted :: "SecondaryIndexReaderImpl \<Rightarrow> error option" where
  "Interrupted it = err it"

text \<open>\<open>Next\<close> called \<open>n\<close> times in a row: the booleans returned, in order.\<close>

fun Next_times ::
  "nat \<Rightarrow> SecondaryIndexReaderImpl \<Rightarrow> Row
    \<Rightarrow> (bool list \<times> Row \<times> SecondaryIndexReaderImpl) option" where
  "Next_times 0 it row = Some ([], row, it)"
| "Next_times (Suc n) it row =
     (case Next it row of
        None \<Rightarrow> None
      | Some (b, row', it') \<Rightarrow>
          (case Next_times n it' row' of
             None \<Rightarrow> None
           | Some (bs, row'', it'') \<Rightarrow> Some (b # bs, row'', it'')))"

text \<open>
  A call of \<open>Next\<close> that returns true has taken one row from the iterator over the
  secondary index, so the loop of a caller comes to an end.
\<close>

lemma Next_True_consumes:
  "Next it row = Some (True, row', it') \<Longrightarrow>
     length (events (kvIter it')) < length (events (kvIter it))"
  by (auto simp: Next_def Iterator_Next_def Let_def tx_Read_def
      split: if_splits list.splits iter_event.splits sum.splits option.splits prod.splits)

text \<open>
  The loop of a caller, \<open>for it.Next(&row) { ... }\<close>: the rows it sees until the first
  call that returns false, and the reader at that point.
\<close>

function collect ::
  "SecondaryIndexReaderImpl \<Rightarrow> Row \<Rightarrow> (Row list \<times> SecondaryIndexReaderImpl) option" where
  "collect it row =
     (case Next it row of
        None \<Rightarrow> None
      | Some (b, row', it') \<Rightarrow>
          (if b then
             (case collect it' row' of
                None \<Rightarrow> None
              | Some (rows, it'') \<Rightarrow> Some (row' # rows, it''))
           else Some ([], it')))"
  by pat_completeness auto
termination collect
proof (relation "measure (\<lambda>(it, row). length (events (kvIter it)))")
  show "wf (measure (\<lambda>(it, row). length (events (kvIter it))))" by simp
next
  fix it :: SecondaryIndexReaderImpl and row :: Row
    and x2 :: "bool \<times> Row \<times> SecondaryIndexReaderImpl" and b y row' it'
  assume "Next it row = Some x2" "(b, y) = x2" "(row', it') = y" "b"
  then have "Next it row = Some (True, row', it')" by auto
  then have "length (events (kvIter it')) < length (events (kvIter it))"
    by (rule Next_True_consumes)
  then show "((it', row'), (it, row)) \<in> measure (\<lambda>(it, row). length (events (kvIter it)))"
    by simp
qed

declare collect.simps [simp del]

section \<open>Key generation (keyGenerator, package database)\<close>

subsection \<open>Byte slices and the store of arrays\<close>

text \<open>
  A \<open>[]byte\<close> value is a view of an array: the array, the offset of the first byte, the
  length and the capacity. The store holds the arrays; an allocation adds an array at the
  end, so the arrays that exist before a call are those below the length of the store.
\<close>

type_synonym addr = nat
type_synonym store = "bytes list"

record slice =
  s_arr :: addr
  s_off :: nat
  s_len :: nat
  s_cap :: nat

definition nil_slice :: slice where
  "nil_slice = \<lparr>s_arr = 0, s_off = 0, s_len = 0, s_cap = 0\<rparr>"

definition slice_bytes :: "store \<Rightarrow> slice \<Rightarrow> bytes" where
  "slice_bytes h s =
     (if s_arr s < length h then take (s_len s) (drop (s_off s) (h ! s_arr s)) else [])"

text \<open>A new array with the given contents: \<open>make\<close> and the conversion \<open>[]byte(string)\<close>.\<close>

definition new_bytes :: "store \<Rightarrow> bytes \<Rightarrow> store \<times> slice" where
  "new_bytes h bs =
     (h @ [bs], \<lparr>s_arr = length h, s_off = 0, s_len = length bs, s_cap = length bs\<rparr>)"

definition make_bytes :: "store \<Rightarrow> nat \<Rightarrow> store \<times> slice" where
  "make_bytes h n = new_bytes h (replicate n 0)"

text \<open>Writing bytes into an array from a position on.\<close>

definition write_at :: "store \<Rightarrow> addr \<Rightarrow> nat \<Rightarrow> bytes \<Rightarrow> store" where
  "write_at h a pos bs =
     (if a < length h then
        h[a := take pos (h ! a) @ bs @ drop (pos + length bs) (h ! a)]
      else h)"

text \<open>The builtin \<open>copy(dst, src)\<close> copies as many bytes as the shorter of the two holds.\<close>

definition copy_bytes :: "store \<Rightarrow> slice \<Rightarrow> slice \<Rightarrow> store" where
  "copy_bytes h dst src = write_at h (s_arr dst) (s_off dst) (take (s_len dst) (slice_bytes h src))"

text \<open>
  The builtin \<open>append\<close> writes behind the slice when the capacity allows it, and copies to
  a new array otherwise.
\<close>

definition append_bytes :: "store \<Rightarrow> slice \<Rightarrow> bytes \<Rightarrow> store \<times> slice" where
  "append_bytes h s bs =
     (if s_len s + length bs \<le> s_cap s then
        (write_at h (s_arr s) (s_off s + s_len s) bs, s\<lparr>s_len := s_len s + length bs\<rparr>)
      else new_bytes h (slice_bytes h s @ bs))"

subsection \<open>The schema of the index and the environment\<close>

text \<open>
  Modelled from the spec: \<open>schema.Field\<close> and \<open>schema.Index\<close> are not part of the sources; a
  field of a primary index has a name, a type and the \<open>autoGenerate\<close> flag (4.5).
\<close>

record Field =
  Field_FieldName :: string
  Field_Type :: FieldType
  Field_IsAutoGenerated :: bool

record Index =
  Fields :: "Field list"

datatype ValueType =
  JNotExist | JString | JNumber | JObject | JArray | JBoolean | JNull | JUnknown

text \<open>
  The functions of other packages that the generator calls are its environment. The JSON
  library reads a document (\<open>jsonparser.Get\<close>) and writes one (\<open>jsonparser.Set\<close>); the
  latter is given the store, for it may write into the array of the slice it receives. The
  sources of generated values (UUIDs, the clock, the counter of the table) read and change a
  world \<open>'w\<close>.
\<close>

record 'w keygen_env =
  jsonparser_Get :: "bytes \<Rightarrow> string \<Rightarrow> bytes \<times> ValueType \<times> error option"
  jsonparser_Set :: "store \<Rightarrow> slice \<Rightarrow> bytes \<Rightarrow> string \<Rightarrow> store \<times> slice \<times> error option"
  NewUUIDAsString :: "'w \<Rightarrow> string \<times> 'w"
  Now_RFC3339Nano :: "'w \<Rightarrow> string \<times> 'w"
  Now_UnixNano :: "'w \<Rightarrow> int \<times> 'w"
  GenerateCounter :: "'w \<Rightarrow> bytes \<Rightarrow> (error + 32 word) \<times> 'w"
  base64_EncodeToString :: "bytes \<Rightarrow> string"
  NewValue :: "FieldType \<Rightarrow> bytes \<Rightarrow> error + Value"
  EncodeKey :: "bytes \<Rightarrow> Index \<Rightarrow> part list \<Rightarrow> error + tableKey"

definition NewStringValue :: "string \<Rightarrow> Value" where
  "NewStringValue s = \<lparr>ValueDataType = StringType, AsInterface = PString s\<rparr>"

definition NewBytesValue :: "bytes \<Rightarrow> Value" where
  "NewBytesValue b = \<lparr>ValueDataType = ByteType, AsInterface = PBytes b\<rparr>"

definition NewIntValue :: "int \<Rightarrow> Value" where
  "NewIntValue i = \<lparr>ValueDataType = Int64Type, AsInterface = PInt i\<rparr>"

text \<open>The verb \<open>%d\<close> of \<open>fmt.Sprintf\<close>.\<close>

fun dec_nat :: "nat \<Rightarrow> string" where
  "dec_nat n =
     (if n < 10 then [''0123456789'' ! n]
      else dec_nat (n div 10) @ [''0123456789'' ! (n mod 10)])"

declare dec_nat.simps [simp del]

definition dec_int :: "int \<Rightarrow> string" where
  "dec_int i = (if i < 0 then CHR ''-'' # dec_nat (nat (- i)) else dec_nat (nat i))"

definition error_text :: "error \<Rightarrow> string" where
  "error_text e = (case e of Error c m as \<Rightarrow> m)"

subsection \<open>keyGenerator\<close>

definition zeroIntStringSlice :: bytes where
  "zeroIntStringSlice = str_bytes ''0''"

definition zeroUUIDStringSlice :: bytes where
  "zeroUUIDStringSlice = str_bytes ''00000000-0000-0000-0000-000000000000''"

definition zeroTimeStringSlice :: bytes where
  "zeroTimeStringSlice = str_bytes ''0001-01-01T00:00:00Z''"

text \<open>
  The generator holds the document and the keys of the response as slices; \<open>generator\<close>,
  the owner of the counters, is part of the world.
\<close>

record keyGenerator =
  document :: slice
  keysForResp :: slice
  index :: Index
  forceInsert :: bool

definition newKeyGenerator :: "slice \<Rightarrow> Index \<Rightarrow> keyGenerator" where
  "newKeyGenerator doc idx =
     \<lparr>document = doc, keysForResp = nil_slice, index = idx, forceInsert = False\<rparr>"

definition quote :: byte where "quote = 34"
definition colon :: byte where "colon = 58"
definition comma :: byte where "comma = 44"

definition getJsonQuotedValue :: "FieldType \<Rightarrow> bytes \<Rightarrow> bytes" where
  "getJsonQuotedValue fieldType jsonVal =
     (case fieldType of
        StringType \<Rightarrow> quote # jsonVal @ [quote]
      | UUIDType \<Rightarrow> quote # jsonVal @ [quote]
      | ByteType \<Rightarrow> quote # jsonVal @ [quote]
      | DateTimeType \<Rightarrow> quote # jsonVal @ [quote]
      | _ \<Rightarrow> jsonVal)"

definition isNull :: "FieldType \<Rightarrow> bytes \<Rightarrow> bool" where
  "isNull tp val =
     (case tp of
        Int32Type \<Rightarrow> val = zeroIntStringSlice
      | Int64Type \<Rightarrow> val = zeroIntStringSlice
      | UUIDType \<Rightarrow> val = zeroUUIDStringSlice
      | DateTimeType \<Rightarrow> val = zeroTimeStringSlice
      | StringType \<Rightarrow> length val = 0
      | ByteType \<Rightarrow> length val = 0
      | _ \<Rightarrow> False)"

text \<open>\<open>get\<close> returns the generated value, unquoted, and the value for the key.\<close>

definition get ::
  "'w keygen_env \<Rightarrow> 'w \<Rightarrow> bytes \<Rightarrow> Field \<Rightarrow> (error + bytes \<times> Value) \<times> 'w" where
  "get env w tbl field =
     (case Field_Type field of
        StringType \<Rightarrow>
          (case NewUUIDAsString env w of (u, w') \<Rightarrow> (Inr (str_bytes u, NewStringValue u), w'))
      | UUIDType \<Rightarrow>
          (case NewUUIDAsString env w of (u, w') \<Rightarrow> (Inr (str_bytes u, NewStringValue u), w'))
      | ByteType \<Rightarrow>
          (case NewUUIDAsString env w of
             (u, w') \<Rightarrow>
               (let val = NewBytesValue (str_bytes u);
                    b64 = base64_EncodeToString env (str_bytes u) in
                (Inr (str_bytes b64, val), w')))
      | DateTimeType \<Rightarrow>
          (case Now_RFC3339Nano env w of (t, w') \<Rightarrow> (Inr (str_bytes t, NewStringValue t), w'))
      | Int64Type \<Rightarrow>
          (case Now_UnixNano env w of
             (n, w') \<Rightarrow> (Inr (str_bytes (dec_int n), NewIntValue n), w'))
      | Int32Type \<Rightarrow>
          (case GenerateCounter env w tbl of
             (Inl e, w') \<Rightarrow> (Inl e, w')
           | (Inr valueI32, w') \<Rightarrow>
               (Inr (str_bytes (dec_int (sint valueI32)), NewIntValue (sint valueI32)), w'))
      | _ \<Rightarrow> (Inl (Error InvalidArgument ''unsupported type found in auto-generator'' []), w))"

text \<open>
  \<open>setKeyInDoc\<close> copies the document to a new array, makes the copy the document of the
  generator and hands the copy to \<open>jsonparser.Set\<close>; the slice that \<open>Set\<close> returns becomes
  the document, also when it returns an error.
\<close>

definition setKeyInDoc ::
  "'w keygen_env \<Rightarrow> store \<Rightarrow> keyGenerator \<Rightarrow> Field \<Rightarrow> bytes
    \<Rightarrow> error option \<times> store \<times> keyGenerator" where
  "setKeyInDoc env h k field jsonVal =
     (let jsonVal' = getJsonQuotedValue (Field_Type field) jsonVal in
      case make_bytes h (s_len (document k)) of
        (h1, tmp) \<Rightarrow>
          (let h2 = copy_bytes h1 tmp (document k);
               k1 = k\<lparr>document := tmp\<rparr> in
           case jsonparser_Set env h2 (document k1) jsonVal' (Field_FieldName field) of
             (h3, d, e) \<Rightarrow> (e, h3, k1\<lparr>document := d\<rparr>)))"

definition addKeyToResp ::
  "store \<Rightarrow> keyGenerator \<Rightarrow> Field \<Rightarrow> bytes \<Rightarrow> store \<times> keyGenerator" where
  "addKeyToResp h k field jsonVal =
     (let jsonVal' = getJsonQuotedValue (Field_Type field) jsonVal in
      case new_bytes h (quote # str_bytes (Field_FieldName field) @ [quote, colon] @ jsonVal') of
        (h1, jsonKeyAndValue) \<Rightarrow>
          (if s_len (keysForResp k) = 0 then (h1, k\<lparr>keysForResp := jsonKeyAndValue\<rparr>)
           else
             (case append_bytes h1 (keysForResp k) [comma] of
                (h2, r) \<Rightarrow>
                  (case append_bytes h2 r (slice_bytes h2 jsonKeyAndValue) of
                     (h3, r') \<Rightarrow> (h3, k\<lparr>keysForResp := r'\<rparr>)))))"

text \<open>
  One round of the loop of \<open>generate\<close> over the fields of the index: the part of the key
  for the field, or the error that ends the loop, with the store, the world and the
  generator after the round. \<open>autoGenerate\<close> is the condition of that name in the loop.
\<close>

definition autoGenerate :: "Field \<Rightarrow> bytes \<Rightarrow> ValueType \<Rightarrow> error option \<Rightarrow> bool" where
  "autoGenerate field jsonVal dtp e =
     (Field_IsAutoGenerated field \<and>
      (dtp = JNotExist \<or> e = None \<and> (isNull (Field_Type field) jsonVal \<or> dtp = JNull)))"

definition generate_field ::
  "'w keygen_env \<Rightarrow> bytes \<Rightarrow> Field \<Rightarrow> store \<Rightarrow> 'w \<Rightarrow> keyGenerator
    \<Rightarrow> (error + part) \<times> store \<times> 'w \<times> keyGenerator" where
  "generate_field env tbl field h w k =
     (case jsonparser_Get env (slice_bytes h (document k)) (Field_FieldName field) of
        (jsonVal, dtp, e) \<Rightarrow>
          (if \<not> autoGenerate field jsonVal dtp e \<and> e \<noteq> None then
             (Inl (Error InvalidArgument ''missing index key column(s) '%s': %w''
                     [FStr (Field_FieldName field),
                      FStr (case e of None \<Rightarrow> [] | Some x \<Rightarrow> error_text x)]),
              h, w, k)
           else if autoGenerate field jsonVal dtp e then
             (case get env w tbl field of
                (Inl x, w1) \<Rightarrow> (Inl x, h, w1, k)
              | (Inr (jsonVal1, v), w1) \<Rightarrow>
                  (case setKeyInDoc env h k field jsonVal1 of
                     (Some x, h1, k1) \<Rightarrow> (Inl x, h1, w1, k1)
                   | (None, h1, k1) \<Rightarrow>
                       (let k2 = (if Field_Type field = Int64Type
                                     \<or> Field_Type field = DateTimeType
                                  then k1\<lparr>forceInsert := True\<rparr> else k1) in
                        case addKeyToResp h1 k2 field jsonVal1 of
                          (h2, k3) \<Rightarrow> (Inr (AsInterface v), h2, w1, k3))))
           else
             (case NewValue env (Field_Type field) jsonVal of
                Inl x \<Rightarrow> (Inl x, h, w, k)
              | Inr v \<Rightarrow>
                  (case addKeyToResp h k field jsonVal of
                     (h2, k3) \<Rightarrow> (Inr (AsInterface v), h2, w, k3)))))"

fun generate_fields ::
  "'w keygen_env \<Rightarrow> bytes \<Rightarrow> Field list \<Rightarrow> store \<Rightarrow> 'w \<Rightarrow> keyGenerator \<Rightarrow> part list
    \<Rightarrow> (error + part list) \<times> store \<times> 'w \<times> keyGenerator" where
  "generate_fields env tbl [] h w k parts = (Inr parts, h, w, k)"
| "generate_fields env tbl (field # rest) h w k parts =
     (case generate_field env tbl field h w k of
        (Inl x, h', w', k') \<Rightarrow> (Inl x, h', w', k')
      | (Inr p, h', w', k') \<Rightarrow> generate_fields env tbl rest h' w' k' (parts @ [p]))"

definition generate ::
  "'w keygen_env \<Rightarrow> store \<Rightarrow> 'w \<Rightarrow> keyGenerator \<Rightarrow> bytes
    \<Rightarrow> (error + tableKey) \<times> store \<times> 'w \<times> keyGenerator" where
  "generate env h w k tbl =
     (case generate_fields env tbl (Fields (index k)) h w k [] of
        (Inl x, h', w', k') \<Rightarrow> (Inl x, h', w', k')
      | (Inr parts, h', w', k') \<Rightarrow> (EncodeKey env tbl (index k) parts, h', w', k'))"


subsection \<open>What a call may write\<close>

text \<open>
  \<open>keeps n h h'\<close>: the store \<open>h'\<close> still has the arrays of \<open>h\<close>, and the arrays below \<open>n\<close>
  with the contents they had.
\<close>

definition keeps :: "nat \<Rightarrow> store \<Rightarrow> store \<Rightarrow> bool" where
  "keeps n h h' = (length h \<le> length h' \<and> (\<forall>a<n. h' ! a = h ! a))"

text \<open>
  What is assumed of \<open>jsonparser.Set\<close>: it may write into the array of the slice it is given
  and allocate, and it leaves every other array as it was; the slice it returns is nil, lies
  in the array it was given, or in an array it has allocated.
\<close>

definition Set_frame ::
  "(store \<Rightarrow> slice \<Rightarrow> bytes \<Rightarrow> string \<Rightarrow> store \<times> slice \<times> error option) \<Rightarrow> bool" where
  "Set_frame jset =
     (\<forall>h d v key. case jset h d v key of
        (h', d', e) \<Rightarrow>
          length h \<le> length h'
          \<and> (\<forall>a<length h. a \<noteq> s_arr d \<longrightarrow> h' ! a = h ! a)
          \<and> (d' = nil_slice \<or> s_arr d' = s_arr d \<or> length h \<le> s_arr d'))"

text \<open>
  The slices a generator holds, seen from the arrays below \<open>n\<close>: the document is the slice
  \<open>doc\<close> it was created with, nil, or lies in a later array; the keys of the response are
  empty or lie in a later array.
\<close>

definition holds_copy :: "nat \<Rightarrow> slice \<Rightarrow> keyGenerator \<Rightarrow> bool" where
  "holds_copy n doc k =
     ((document k = doc \<or> document k = nil_slice \<or> n \<le> s_arr (document k))
      \<and> (s_len (keysForResp k) = 0 \<or> n \<le> s_arr (keysForResp k)))"

section \<open>Concrete values for the examples\<close>

definition js0 :: json where
  "js0 = \<lparr>marshal = (\<lambda>m. []), unmarshal = (\<lambda>b. None)\<rparr>"

definition c0 :: metadataSubspace where
  "c0 = \<lparr>SubspaceName = [101, 110, 99], KeyVersion = [encKeyVersion]\<rparr>"

definition t0 :: Tx where
  "t0 = \<lparr>kv = Map.empty, fault = Map.empty, oplog = []\<rparr>"

definition env0 :: planner_env where
  "env0 = \<lparr>eqKeyBuilder_Build = spec_eqKeyBuilder_Build,
           rangeKeyBuilder_Build = (\<lambda>enc build filters flds. Inr []),
           SortQueryPlans = (\<lambda>plans. plans),
           ToSecondaryOrder = (\<lambda>t v. 0),
           newKeyWithPrimaryKey =
             (\<lambda>parts tbl keyword kvs. NewKey tbl (PString keyword # PString kvs # parts))\<rparr>"

definition coll0 :: "FieldType \<Rightarrow> DefaultCollection" where
  "coll0 t = \<lparr>EncodedName = [100], EncodedTableIndexName = [105],
              SecondaryIndexKeyword = ''skey'',
              QueryableFields =
                [\<lparr>FieldName = ''age'', FieldDataType = t, Indexed = True, State = FieldActive\<rparr>]\<rparr>"

definition age_eq_30 :: Selector where
  "age_eq_30 = \<lparr>SelField = ''age'', SelMatcher = EQ,
                SelValue = \<lparr>ValueDataType = Int64Type, AsInterface = PInt 30\<rparr>\<rparr>"

text \<open>
  A reader over two hits of the secondary index on \<open>age = 30\<close>, for the primary keys 1
  and 2, in a transaction that holds only the document of key 2.
\<close>

definition idx_key :: "int \<Rightarrow> tableKey" where
  "idx_key k = NewKey [105]
     [PString ''skey'', PString ''kvs'', PString ''age'', PInt 0, PInt 30, PInt 0, PInt k]"

definition hit :: "int \<Rightarrow> Row" where
  "hit k = \<lparr>Key = SerializeToBytes (idx_key k), Data = \<lparr>Ver = 0, RawData = []\<rparr>\<rparr>"

definition pk_bytes :: "int \<Rightarrow> bytes" where
  "pk_bytes k = SerializeToBytes (NewKey [100] [PInt k])"

definition doc2 :: TableData where
  "doc2 = \<lparr>Ver = 1, RawData = [123, 125]\<rparr>"

definition tx1 :: Tx where
  "tx1 = \<lparr>kv = [pk_bytes 2 \<mapsto> doc2], fault = Map.empty, oplog = []\<rparr>"

definition row0 :: Row where
  "row0 = \<lparr>Key = [], Data = \<lparr>Ver = 0, RawData = []\<rparr>\<rparr>"

definition reader0 :: SecondaryIndexReaderImpl where
  "reader0 = \<lparr>coll = coll0 Int64Type, tx = tx1, err = None,
              queryPlan = \<lparr>QueryType = EQUAL, DataType = Int64Type, Keys = []\<rparr>,
              kvIter = \<lparr>events = [Item (hit 1), Item (hit 2)], interrupted = None\<rparr>\<rparr>"

definition reader1 :: SecondaryIndexReaderImpl where
  "reader1 = reader0\<lparr>kvIter := \<lparr>events = [Item (hit 2)], interrupted = None\<rparr>,
                     tx := tx1\<lparr>oplog := [OpRead (pk_bytes 1)]\<rparr>\<rparr>"

definition e0 :: error where
  "e0 = Error Cancelled ''context canceled'' []"

definition reader_interrupted :: SecondaryIndexReaderImpl where
  "reader_interrupted = reader0\<lparr>kvIter := \<lparr>events = [Item (hit 2)], interrupted = Some e0\<rparr>\<rparr>"

definition reader_badkey :: SecondaryIndexReaderImpl where
  "reader_badkey =
     reader0\<lparr>kvIter := \<lparr>events = [Item \<lparr>Key = [0], Data = doc2\<rparr>, Item (hit 2)],
                          interrupted = None\<rparr>\<rparr>"

definition reader_fault :: SecondaryIndexReaderImpl where
  "reader_fault = reader0\<lparr>tx := tx1\<lparr>fault := [pk_bytes 1 \<mapsto> e0]\<rparr>\<rparr>"





text \<open>
  A JSON library for documents of the one shape \<open>{"a":x,"b":y}\<close> with one-digit values:
  \<open>Get\<close> reads the digit of the key, \<open>Set\<close> overwrites it in the array it is given.
\<close>

definition digit_pos :: "string \<Rightarrow> nat" where
  "digit_pos key = (if key = ''a'' then 5 else 11)"

definition Get_digit :: "bytes \<Rightarrow> string \<Rightarrow> bytes \<times> ValueType \<times> error option" where
  "Get_digit d key = (take 1 (drop (digit_pos key) d), JNumber, None)"

definition Set_digit ::
  "store \<Rightarrow> slice \<Rightarrow> bytes \<Rightarrow> string \<Rightarrow> store \<times> slice \<times> error option" where
  "Set_digit h d v key = (write_at h (s_arr d) (s_off d + digit_pos key) v, d, None)"

definition kenv0 :: "nat keygen_env" where
  "kenv0 = \<lparr>jsonparser_Get = Get_digit, jsonparser_Set = Set_digit,
            NewUUIDAsString = (\<lambda>w. (''u'', Suc w)),
            Now_RFC3339Nano = (\<lambda>w. (''t'', Suc w)),
            Now_UnixNano = (\<lambda>w. (7, Suc w)),
            GenerateCounter = (\<lambda>w tbl. (Inr (of_nat (Suc w)), Suc w)),
            base64_EncodeToString = bytes_str,
            NewValue = (\<lambda>t b. Inr (NewBytesValue b)),
            EncodeKey = (\<lambda>tbl idx parts. Inr (NewKey tbl parts))\<rparr>"

text \<open>The document \<open>{"a":0,"b":0}\<close> and an index on \<open>a\<close> and \<open>b\<close>, both generated.\<close>

definition doc_bytes :: bytes where
  "doc_bytes = [123, 34, 97, 34, 58, 48, 44, 34, 98, 34, 58, 48, 125]"

definition h0 :: store where
  "h0 = [doc_bytes]"

definition doc0 :: slice where
  "doc0 = \<lparr>s_arr = 0, s_off = 0, s_len = 13, s_cap = 13\<rparr>"

definition idx0 :: Index where
  "idx0 = \<lparr>Fields =
     [\<lparr>Field_FieldName = ''a'', Field_Type = Int32Type, Field_IsAutoGenerated = True\<rparr>,
      \<lparr>Field_FieldName = ''b'', Field_Type = Int64Type, Field_IsAutoGenerated = True\<rparr>]\<rparr>"

section \<open>Theorems\<close>

text \<open>
  C6. A key built with an empty list of index parts serializes to exactly the table bytes:
  nothing is appended and nothing is changed.
\<close>

theorem SerializeToBytes_empty_parts:
  "SerializeToBytes (NewKey tbl []) = tbl"
  by (simp add: SerializeToBytes_def NewKey_def)

subsection \<open>Retrogression check of \<open>list\<close>\<close>

lemma retrogression_check_None_iff:
  "retrogression_check indexes order = None \<longleftrightarrow>
   (\<forall>(n, d) \<in> set order. \<forall>m. indexes n = Some m \<longrightarrow> d < ID m)"
  by (induction indexes order rule: retrogression_check.induct)
     (auto split: option.splits simp: not_le)

lemma retrogression_check_Some_Internal:
  "retrogression_check indexes order = Some e \<Longrightarrow> err_code e = Internal"
  by (induction indexes order rule: retrogression_check.induct)
     (auto split: option.splits if_splits)

text \<open>
  C2. Whenever the rows of \<open>listMetadata\<close> fold into the maps (indexes, droppedIndexes), and
  whatever the order in which the range over the dropped map runs: if some name is both
  dropped and active with the dropped id greater than or equal to the active id, \<open>list\<close>
  returns an Internal error; otherwise it returns the map of active indexes.
\<close>

theorem list_retrogression_check:
  assumes fold: "list_fold js rows scanErr = Ok (indexes, droppedIndexes)"
    and order: "map_of order = droppedIndexes" "distinct (map fst order)"
  shows "((\<exists>name d m. droppedIndexes name = Some d \<and> indexes name = Some m \<and> ID m \<le> d)
            \<longrightarrow> (\<exists>e. list_indexes js rows scanErr order = Err e \<and> err_code e = Internal))
       \<and> (\<not> (\<exists>name d m. droppedIndexes name = Some d \<and> indexes name = Some m \<and> ID m \<le> d)
            \<longrightarrow> list_indexes js rows scanErr order = Ok indexes)"
proof -
  let ?retro = "\<exists>name d m. droppedIndexes name = Some d \<and> indexes name = Some m \<and> ID m \<le> d"
  have mem: "\<And>n d. (n, d) \<in> set order \<longleftrightarrow> droppedIndexes n = Some d"
    using order by (auto dest: map_of_SomeD)
  have none: "retrogression_check indexes order = None \<longleftrightarrow> \<not> ?retro"
    unfolding retrogression_check_None_iff using mem by (fastforce simp: not_le)
  show ?thesis
  proof (cases "retrogression_check indexes order")
    case None
    with none fold show ?thesis by (simp add: list_indexes_def)
  next
    case (Some e)
    with none have "?retro" by auto
    moreover from Some fold have "list_indexes js rows scanErr order = Err e"
      by (simp add: list_indexes_def)
    moreover from Some have "err_code e = Internal"
      by (rule retrogression_check_Some_Internal)
    ultimately show ?thesis by blast
  qed
qed

text \<open>
  The two histories of the spec: index \<open>x\<close> soft-deleted with id 5 and recreated with id 4
  (retrogression), and recreated with id 6 (the list succeeds).
\<close>

theorem list_retrogression_check_witness:
  "(\<exists>e. list_indexes js0
          [(True, ''x'', \<lparr>Ver = 0, RawData = [0, 0, 0, 5]\<rparr>),
           (False, ''x'', \<lparr>Ver = 0, RawData = [0, 0, 0, 4]\<rparr>)] None [(''x'', 5)] = Err e
        \<and> err_code e = Internal)
   \<and> list_indexes js0
          [(True, ''x'', \<lparr>Ver = 0, RawData = [0, 0, 0, 5]\<rparr>),
           (False, ''x'', \<lparr>Ver = 0, RawData = [0, 0, 0, 6]\<rparr>)] None [(''x'', 5)]
        = Ok [''x'' \<mapsto> \<lparr>ID = 6, Name = []\<rparr>]"
proof -
  let ?old = "(True, ''x'', \<lparr>Ver = 0, RawData = [0, 0, 0, 5]\<rparr>)"
  have f4: "list_fold js0 [?old, (False, ''x'', \<lparr>Ver = 0, RawData = [0, 0, 0, 4]\<rparr>)] None
      = Ok ([''x'' \<mapsto> \<lparr>ID = 4, Name = []\<rparr>], [''x'' \<mapsto> 5])"
    by (simp add: list_fold_def list_visit_def decodeMetadata_def ByteToUInt32_def be_nat_def)
  have f6: "list_fold js0 [?old, (False, ''x'', \<lparr>Ver = 0, RawData = [0, 0, 0, 6]\<rparr>)] None
      = Ok ([''x'' \<mapsto> \<lparr>ID = 6, Name = []\<rparr>], [''x'' \<mapsto> 5])"
    by (simp add: list_fold_def list_visit_def decodeMetadata_def ByteToUInt32_def be_nat_def)
  have o: "map_of [(''x'', 5 :: u32)] = [''x'' \<mapsto> 5]" "distinct (map fst [(''x'', 5 :: u32)])"
    by simp_all
  have r4: "\<exists>name d m. [''x'' \<mapsto> 5 :: u32] name = Some d
      \<and> [''x'' \<mapsto> \<lparr>ID = 4, Name = []\<rparr>] name = Some m \<and> ID m \<le> d"
    by (rule exI [of _ "''x''"]) simp
  have r6: "\<not> (\<exists>name d m. [''x'' \<mapsto> 5 :: u32] name = Some d
      \<and> [''x'' \<mapsto> \<lparr>ID = 6, Name = []\<rparr>] name = Some m \<and> ID m \<le> d)"
    by (auto split: if_splits)
  from list_retrogression_check [OF f4 o] r4 list_retrogression_check [OF f6 o] r6
  show ?thesis by blast
qed

subsection \<open>Decoding of metadata payloads\<close>

text \<open>
  C7. A payload with \<open>ver = 0\<close> whose raw data are the four bytes a, b, c, d decodes to the
  metadata whose id is the big-endian uint32 of those bytes, whatever the JSON decoder is
  (it is not consulted); a payload with \<open>ver \<ge> 1\<close> is handed to the JSON decoder, and a
  decoding failure is an Internal error.
\<close>

theorem decodeMetadata_versions:
  "(Ver p = 0 \<and> RawData p = [a, b, c, d] \<longrightarrow>
      decodeMetadata js name p =
        Ok \<lparr>ID = of_nat (unat a * 16777216 + unat b * 65536 + unat c * 256 + unat d), Name = []\<rparr>)
   \<and> (1 \<le>s Ver p \<longrightarrow>
      decodeMetadata js name p =
        (case unmarshal js (RawData p) of
           None \<Rightarrow> Err (Error Internal ''failed to unmarshal collection metadata'' [])
         | Some m \<Rightarrow> Ok m))"
proof -
  have "1 \<le>s Ver p \<Longrightarrow> Ver p \<noteq> 0"
    by (auto simp: word_sle_eq)
  then show ?thesis
    by (auto simp: decodeMetadata_def ByteToUInt32_def be_nat_def algebra_simps)
qed

theorem decodeMetadata_versions_witness:
  "decodeMetadata js0 ''by_email'' \<lparr>Ver = 0, RawData = [0, 0, 1, 7]\<rparr> = Ok \<lparr>ID = 263, Name = []\<rparr>
   \<and> decodeMetadata js0 ''by_email'' \<lparr>Ver = 1, RawData = [123]\<rparr>
       = Err (Error Internal ''failed to unmarshal collection metadata'' [])"
  using decodeMetadata_versions [of "\<lparr>Ver = 0, RawData = [0, 0, 1, 7]\<rparr>" 0 0 1 7 js0 "''by_email''"]
    decodeMetadata_versions [of "\<lparr>Ver = 1, RawData = [123]\<rparr>" 0 0 0 0 js0 "''by_email''"]
  by (simp add: js0_def)

subsection \<open>Argument validation\<close>

text \<open>
  C8. When one of the three ids is zero or the name is empty (or, for \<open>insert\<close> and
  \<open>Update\<close>, the metadata pointer is nil), every operation of the primary index store
  returns an InvalidArgument error, and the transaction, its contents and its log of
  substrate operations, is exactly what it was.
\<close>

theorem validateArgs_guards_operations:
  "(nsID = 0 \<or> dbID = 0 \<or> collID = 0 \<or> name = [] \<or> md = None \<longrightarrow>
      (\<exists>e. err_code e = InvalidArgument
          \<and> insert_index js c t nsID dbID collID name md = (Some e, t))
    \<and> (\<exists>e. err_code e = InvalidArgument
          \<and> Update js c t nsID dbID collID name md = (Some e, t)))
   \<and> (nsID = 0 \<or> dbID = 0 \<or> collID = 0 \<or> name = [] \<longrightarrow>
      (\<exists>e. err_code e = InvalidArgument
          \<and> Get js c t nsID dbID collID name = (Err e, t))
    \<and> (\<exists>e. err_code e = InvalidArgument
          \<and> delete_index c t nsID dbID collID name = (Some e, t))
    \<and> (\<exists>e. err_code e = InvalidArgument
          \<and> softDelete c t nsID dbID collID name = (Some e, t)))"
proof -
  have payload: "\<exists>e. err_code e = InvalidArgument
      \<and> validateArgs nsID dbID collID name (Some md) = Some e"
    if "nsID = 0 \<or> dbID = 0 \<or> collID = 0 \<or> name = [] \<or> md = None"
    using that by (auto simp: validateArgs_def)
  have plain: "\<exists>e. err_code e = InvalidArgument
      \<and> validateArgs nsID dbID collID name None = Some e"
    if "nsID = 0 \<or> dbID = 0 \<or> collID = 0 \<or> name = []"
    using that by (auto simp: validateArgs_def)
  show ?thesis
  proof (intro conjI impI)
    assume "nsID = 0 \<or> dbID = 0 \<or> collID = 0 \<or> name = [] \<or> md = None"
    then obtain e where e: "err_code e = InvalidArgument"
      "validateArgs nsID dbID collID name (Some md) = Some e"
      using payload by blast
    then show "\<exists>e. err_code e = InvalidArgument
        \<and> insert_index js c t nsID dbID collID name md = (Some e, t)"
      by (simp add: insert_index_def insertMetadata_def)
    from e show "\<exists>e. err_code e = InvalidArgument
        \<and> Update js c t nsID dbID collID name md = (Some e, t)"
      by (simp add: Update_def updateMetadata_def)
  next
    assume "nsID = 0 \<or> dbID = 0 \<or> collID = 0 \<or> name = []"
    then obtain e where e: "err_code e = InvalidArgument"
      "validateArgs nsID dbID collID name None = Some e"
      using plain by blast
    then show "\<exists>e. err_code e = InvalidArgument
        \<and> Get js c t nsID dbID collID name = (Err e, t)"
      by (simp add: Get_def getPayload_def)
    from e show "\<exists>e. err_code e = InvalidArgument
        \<and> delete_index c t nsID dbID collID name = (Some e, t)"
      by (simp add: delete_index_def deleteMetadata_def)
    from e show "\<exists>e. err_code e = InvalidArgument
        \<and> softDelete c t nsID dbID collID name = (Some e, t)"
      by (simp add: softDelete_def softDeleteMetadata_def Let_def)
  qed
qed

theorem validateArgs_guards_operations_witness:
  "(\<exists>e. err_code e = InvalidArgument
      \<and> insert_index js0 c0 t0 1 2 3 ''by_email'' None = (Some e, t0))
   \<and> (\<exists>e. err_code e = InvalidArgument
      \<and> Update js0 c0 t0 1 2 3 ''by_email'' None = (Some e, t0))
   \<and> (\<exists>e. err_code e = InvalidArgument \<and> Get js0 c0 t0 1 0 3 ''by_email'' = (Err e, t0))
   \<and> (\<exists>e. err_code e = InvalidArgument \<and> delete_index c0 t0 1 0 3 ''by_email'' = (Some e, t0))
   \<and> (\<exists>e. err_code e = InvalidArgument \<and> softDelete c0 t0 1 0 3 ''by_email'' = (Some e, t0))"
  using validateArgs_guards_operations [of 1 2 3 "''by_email''" None js0 c0 t0]
    validateArgs_guards_operations [of 1 0 3 "''by_email''" None js0 c0 t0]
  by simp

subsection \<open>Round trip of the key codec\<close>

lemma be_nat_snoc: "be_nat (xs @ [b]) = be_nat xs * 256 + unat b"
  by (simp add: be_nat_def)

lemma length_be_bytes: "length (be_bytes k v) = k"
  by (induction k arbitrary: v) simp_all

lemma be_nat_be_bytes: "v < 256 ^ k \<Longrightarrow> be_nat (be_bytes k v) = v"
proof (induction k arbitrary: v)
  case 0
  then show ?case by (simp add: be_nat_def)
next
  case (Suc k)
  from Suc.prems have "v div 256 < 256 ^ k"
    by (simp add: less_mult_imp_div_less mult.commute)
  then have "be_nat (be_bytes k (v div 256)) = v div 256" by (rule Suc.IH)
  moreover have "unat (of_nat (v mod 256) :: byte) = v mod 256"
    by (simp add: unat_of_nat)
  ultimately show ?case by (simp add: be_nat_snoc)
qed

lemma byte_len_bound: "v < 256 ^ byte_len v"
proof (induction v rule: byte_len.induct)
  case (1 v)
  show ?case
  proof (cases "v = 0")
    case True
    then show ?thesis by (simp add: byte_len.simps)
  next
    case False
    with 1 have "v div 256 < 256 ^ byte_len (v div 256)" by simp
    then have "v < 256 * 256 ^ byte_len (v div 256)"
      by (metis div_less_iff_less_mult mult.commute zero_less_numeral)
    with False show ?thesis by (simp add: byte_len.simps [of v])
  qed
qed

lemma byte_len_le: "v < 256 ^ k \<Longrightarrow> byte_len v \<le> k"
proof (induction v arbitrary: k rule: byte_len.induct)
  case (1 v)
  show ?case
  proof (cases "v = 0")
    case True
    then show ?thesis by (simp add: byte_len.simps)
  next
    case False
    with "1.prems" obtain j where k: "k = Suc j" by (cases k) auto
    with "1.prems" have "v div 256 < 256 ^ j"
      by (simp add: less_mult_imp_div_less mult.commute)
    with 1 False have "byte_len (v div 256) \<le> j" by simp
    with False k show ?thesis by (simp add: byte_len.simps [of v])
  qed
qed

lemma byte_len_pos: "0 < v \<Longrightarrow> 0 < byte_len v"
  by (simp add: byte_len.simps [of v])

lemma unescape_escape:
  "rest = [] \<or> hd rest \<noteq> 255 \<Longrightarrow> unescape (escape bs @ 0 # rest) = Some (bs, rest)"
proof (induction bs)
  case Nil
  then show ?case by (cases rest) auto
next
  case (Cons b bs)
  show ?case
  proof (cases "b = 0")
    case True
    with Cons show ?thesis by simp
  next
    case False
    with Cons show ?thesis by (cases "escape bs @ 0 # rest") auto
  qed
qed

lemma bytes_str_str_bytes: "bytes_str (str_bytes s) = s"
proof -
  have "char_of (unat (of_nat (of_char c) :: byte)) = c" for c :: char
    by (simp add: unat_of_nat)
  then show ?thesis
    by (simp add: bytes_str_def str_bytes_def comp_def)
qed

lemma float_unflip_flip: "float_unflip (float_flip w) = w"
proof (cases "bit w 63")
  case True
  then show ?thesis
    by (simp add: float_flip_def float_unflip_def bit_simps)
next
  case False
  then have "bit (w XOR push_bit 63 1) 63"
    by (simp add: bit_simps)
  moreover have "(w XOR push_bit 63 1) XOR push_bit 63 1 = w"
    by (simp only: xor.assoc xor_self_eq xor.right_neutral)
  ultimately show ?thesis using False
    by (simp only: float_flip_def float_unflip_def if_False if_True)
qed

lemma take_n_append: "length x = n \<Longrightarrow> take_n n (x @ rest) = Some (x, rest)"
  by (simp add: take_n_def)

lemma tag_unat: "n \<le> 28 \<Longrightarrow> unat (of_nat n :: byte) = n"
  by (simp add: unat_of_nat)

lemma decode_part_int:
  assumes sup: "- (2 ^ 63) \<le> i" "i < 2 ^ 63"
  shows "decode_part (encode_part (PInt i) @ rest) = Inr (PInt i, rest)"
proof -
  consider (zero) "i = 0" | (pos) "0 < i" | (neg) "i < 0" by linarith
  then show ?thesis
  proof cases
    case zero
    then show ?thesis by (simp add: decode_part.simps take_n_def be_nat_def)
  next
    case pos
    define n where "n = byte_len (nat i)"
    have "nat i < 256 ^ 8" using sup pos by simp
    then have n8: "n \<le> 8" unfolding n_def by (rule byte_len_le)
    have n1: "0 < n" unfolding n_def using pos by (simp add: byte_len_pos)
    have bound: "nat i < 256 ^ n" unfolding n_def by (rule byte_len_bound)
    have t: "unat (of_nat (20 + n) :: byte) = 20 + n"
      using n8 by (simp only: unat_of_nat) simp
    have enc: "encode_part (PInt i) = of_nat (20 + n) # be_bytes n (nat i)"
      using pos by (simp add: n_def Let_def)
    have tn: "take_n n (be_bytes n (nat i) @ rest) = Some (be_bytes n (nat i), rest)"
      by (simp add: take_n_append length_be_bytes)
    have val: "int (be_nat (be_bytes n (nat i))) = i"
      using bound pos by (simp add: be_nat_be_bytes)
    show ?thesis
      unfolding enc using t n1 n8 tn val
      by (simp add: decode_part.simps word_le_nat_alt word_unat_eq_iff Let_def)
  next
    case neg
    define n where "n = byte_len (nat (- i))"
    have "nat (- i) < 256 ^ 8" using sup neg by simp
    then have n8: "n \<le> 8" unfolding n_def by (rule byte_len_le)
    have n1: "0 < n" unfolding n_def using neg by (simp add: byte_len_pos)
    have bound: "nat (- i) < 256 ^ n" unfolding n_def by (rule byte_len_bound)
    then have bi: "- i < 256 ^ n" using neg by (simp add: nat_less_iff)
    have t: "unat (of_nat (20 - n) :: byte) = 20 - n"
      by (simp only: unat_of_nat) simp
    have enc: "encode_part (PInt i) = of_nat (20 - n) # be_bytes n (nat (i + 256 ^ n - 1))"
      using neg by (simp add: n_def Let_def)
    have tn: "take_n n (be_bytes n (nat (i + 256 ^ n - 1)) @ rest)
        = Some (be_bytes n (nat (i + 256 ^ n - 1)), rest)"
      by (simp add: take_n_append length_be_bytes)
    have "nat (i + 256 ^ n - 1) < 256 ^ n"
      using neg bi by (simp add: nat_less_iff)
    then have "be_nat (be_bytes n (nat (i + 256 ^ n - 1))) = nat (i + 256 ^ n - 1)"
      by (rule be_nat_be_bytes)
    then have val: "int (be_nat (be_bytes n (nat (i + 256 ^ n - 1)))) - (256 ^ n - 1) = i"
      using bi by simp
    have nn: "20 - (20 - n) = n" using n8 by simp
    show ?thesis
      unfolding enc using t n1 n8 tn val nn
      by (auto simp add: decode_part.simps word_le_nat_alt word_unat_eq_iff Let_def)
  qed
qed

lemma decode_part_encode_part:
  assumes "supported p" and "rest = [] \<or> hd rest \<noteq> 255"
  shows "decode_part (encode_part p @ rest) = Inr (p, rest)"
proof (cases p)
  case PNil
  then show ?thesis by (simp add: decode_part.simps)
next
  case (PBytes bs)
  with assms(2) show ?thesis
    by (simp add: decode_part.simps unescape_escape)
next
  case (PString s)
  with assms(2) show ?thesis
    by (simp add: decode_part.simps unescape_escape bytes_str_str_bytes)
next
  case (PInt i)
  with assms(1) have "- (2 ^ 63) \<le> i" "i < 2 ^ 63" by simp_all
  then show ?thesis unfolding PInt by (rule decode_part_int)
next
  case (PDouble w)
  have "unat (float_flip w) < 256 ^ 8"
    using unsigned_less [of "float_flip w", where 'a = nat] by simp
  then have "be_nat (be_bytes 8 (unat (float_flip w))) = unat (float_flip w)"
    by (rule be_nat_be_bytes)
  moreover have "take_n 8 (be_bytes 8 (unat (float_flip w)) @ rest)
      = Some (be_bytes 8 (unat (float_flip w)), rest)"
    by (rule take_n_append) (rule length_be_bytes)
  ultimately show ?thesis
    using PDouble by (simp add: decode_part.simps float_unflip_flip)
next
  case (PUUID u)
  with assms(1) have "take_n 16 (u @ rest) = Some (u, rest)"
    by (simp add: take_n_append)
  with PUUID show ?thesis by (simp add: decode_part.simps)
qed

lemma encode_part_head:
  "supported p \<Longrightarrow> \<exists>t ts. encode_part p = t # ts \<and> t \<noteq> 255"
proof (cases p)
  case (PInt i)
  assume "supported p"
  with PInt have sup: "- (2 ^ 63) \<le> i" "i < 2 ^ 63" by simp_all
  have le: "byte_len (nat \<bar>i\<bar>) \<le> 8"
    using sup by (intro byte_len_le) auto
  have "(of_nat (20 + n) :: byte) \<noteq> 255" if "n \<le> 8" for n
    using that by (simp only: word_unat_eq_iff unat_of_nat) simp
  moreover have "(of_nat (20 - n) :: byte) \<noteq> 255" for n
    by (simp only: word_unat_eq_iff unat_of_nat) simp
  ultimately show ?thesis
    using PInt le by (cases "0 < i") (auto simp: Let_def abs_if)
qed simp_all

lemma tuple_Pack_head:
  "\<forall>p \<in> set ps. supported p \<Longrightarrow> tuple_Pack ps = [] \<or> hd (tuple_Pack ps) \<noteq> 255"
proof (cases ps)
  case Nil
  then show ?thesis by (simp add: tuple_Pack_def)
next
  case (Cons p ps')
  assume "\<forall>p \<in> set ps. supported p"
  with Cons have "supported p" by simp
  then obtain t ts where "encode_part p = t # ts" "t \<noteq> 255"
    using encode_part_head by blast
  with Cons show ?thesis by (simp add: tuple_Pack_def)
qed

lemma decode_tuple_nonempty:
  "xs \<noteq> [] \<Longrightarrow> decode_tuple xs =
     (case decode_part xs of
        Inl e \<Rightarrow> Inl e
      | Inr (p, r) \<Rightarrow> (case decode_tuple r of Inl e \<Rightarrow> Inl e | Inr ps \<Rightarrow> Inr (p # ps)))"
  by (cases xs) simp_all

lemma decode_tuple_tuple_Pack:
  "\<forall>p \<in> set ps. supported p \<Longrightarrow> decode_tuple (tuple_Pack ps) = Inr ps"
proof (induction ps)
  case Nil
  then show ?case by (simp add: tuple_Pack_def)
next
  case (Cons p ps)
  then have sup: "supported p" and rest: "\<forall>p \<in> set ps. supported p" by simp_all
  from rest have hd: "tuple_Pack ps = [] \<or> hd (tuple_Pack ps) \<noteq> 255"
    by (rule tuple_Pack_head)
  from sup obtain t ts where "encode_part p = t # ts"
    using encode_part_head by blast
  then have ne: "encode_part p @ tuple_Pack ps \<noteq> []" by simp
  have "decode_part (encode_part p @ tuple_Pack ps) = Inr (p, tuple_Pack ps)"
    using sup hd by (rule decode_part_encode_part)
  moreover have "decode_tuple (tuple_Pack ps) = Inr ps"
    using rest by (rule Cons.IH)
  moreover have "tuple_Pack (p # ps) = encode_part p @ tuple_Pack ps"
    by (simp add: tuple_Pack_def)
  ultimately show ?case
    using decode_tuple_nonempty [OF ne] by simp
qed

lemma FromBinary_SerializeToBytes:
  "\<forall>p \<in> set ps. supported p \<Longrightarrow>
     FromBinary tbl (SerializeToBytes (NewKey tbl ps)) = Inr (NewKey tbl ps)"
proof (cases ps)
  case Nil
  then show ?thesis
    by (simp add: FromBinary_def SerializeToBytes_def NewKey_def subspace_Unpack_def)
next
  case (Cons p ps')
  assume "\<forall>p \<in> set ps. supported p"
  then have "decode_tuple (tuple_Pack ps) = Inr ps" by (rule decode_tuple_tuple_Pack)
  with Cons show ?thesis
    by (simp add: FromBinary_def SerializeToBytes_def NewKey_def subspace_Unpack_def
        subspace_Pack_def)
qed

text \<open>
  C1. For every key whose index parts are supported scalar values, unpacking the serialized
  key with the same table succeeds and returns a key with exactly the original index parts.
\<close>

theorem KeyCodec_round_trip:
  assumes "\<forall>p \<in> set (indexParts k). supported p"
  shows "\<exists>k'. FromBinary (table k) (SerializeToBytes k) = Inr k' \<and> indexParts k' = indexParts k"
proof -
  have "k = NewKey (table k) (indexParts k)" by (simp add: NewKey_def)
  then have "FromBinary (table k) (SerializeToBytes k) = Inr k"
    using FromBinary_SerializeToBytes [OF assms, of "table k"] by simp
  then show ?thesis by simp
qed

theorem KeyCodec_round_trip_witness:
  "\<exists>k'. FromBinary [101, 110, 99]
           (SerializeToBytes (NewKey [101, 110, 99]
              [PBytes [1], PBytes (UInt32ToByte 7), PString ''index'', PString ''by_email'',
               PInt (- 300), PInt 65536, PDouble 4611686018427387904, PNil, keyEnd])) = Inr k'
       \<and> indexParts k' =
           [PBytes [1], PBytes (UInt32ToByte 7), PString ''index'', PString ''by_email'',
            PInt (- 300), PInt 65536, PDouble 4611686018427387904, PNil, keyEnd]"
  using KeyCodec_round_trip [of "NewKey [101, 110, 99]
              [PBytes [1], PBytes (UInt32ToByte 7), PString ''index'', PString ''by_email'',
               PInt (- 300), PInt 65536, PDouble 4611686018427387904, PNil, keyEnd]"]
  by (simp add: NewKey_def keyEnd_def)

subsection \<open>Plan selection\<close>

lemma indexedDataType_indexable: "indexedDataType p = indexable (DataType p)"
  by (cases "DataType p") (simp_all add: indexedDataType_def indexable_def)

lemma first_indexed_None_iff: "first_indexed plans = None \<longleftrightarrow> \<not> list_ex indexedDataType plans"
  by (induction plans) auto

lemma first_indexed_Some: "first_indexed plans = Some p \<Longrightarrow> p \<in> set plans \<and> indexedDataType p"
  by (induction plans) (auto split: if_splits)

lemma encode_all_total:
  "(\<And>ps. \<exists>k. enc ps = Inr k) \<Longrightarrow> \<exists>ks. encode_all enc pss = Inr ks"
proof (induction pss)
  case Nil
  then show ?case by simp
next
  case (Cons ps pss)
  then obtain k ks where "enc ps = Inr k" "encode_all enc pss = Inr ks" by blast
  then show ?case by simp
qed

lemma spec_eq_plans:
  assumes tot: "\<And>ps. \<exists>k. enc ps = Inr k"
  shows "\<exists>plans. spec_eqKeyBuilder_Build enc build filters flds = Inr plans
     \<and> (\<forall>p \<in> set plans. QueryType p = EQUAL)
     \<and> (\<forall>f \<in> set flds. eq_literals filters (FieldName f) \<noteq> [] \<longrightarrow>
            (\<exists>p \<in> set plans. DataType p = FieldDataType f))"
proof (induction flds)
  case Nil
  then show ?case by simp
next
  case (Cons f flds)
  then obtain plans where ih: "spec_eqKeyBuilder_Build enc build filters flds = Inr plans"
      "\<forall>p \<in> set plans. QueryType p = EQUAL"
      "\<forall>f \<in> set flds. eq_literals filters (FieldName f) \<noteq> [] \<longrightarrow>
            (\<exists>p \<in> set plans. DataType p = FieldDataType f)"
    by blast
  obtain ks where ks: "encode_all enc (map (build (FieldName f)) (eq_literals filters (FieldName f))) = Inr ks"
    using encode_all_total [of enc, OF tot] by blast
  show ?case
  proof (cases "eq_literals filters (FieldName f) = []")
    case True
    with ih show ?thesis by simp
  next
    case False
    with ih ks show ?thesis by (auto simp: Let_def)
  qed
qed

lemma eq_literals_nonempty:
  "s \<in> set filters \<Longrightarrow> SelField s = name \<Longrightarrow> SelMatcher s = EQ \<Longrightarrow> eq_literals filters name \<noteq> []"
  by (auto simp: eq_literals_def filter_empty_conv)


text \<open>
  C3. With the equality builder of the spec: for a non-empty filter list, if some active
  indexed field of the collection has an equality filter and the type of the field is
  indexable (not Byte, Unknown or Array), \<open>BuildSecondaryIndexKeys\<close> returns a plan, and
  its query type is EQUAL.
\<close>

theorem BuildSecondaryIndexKeys_prefers_equality:
  assumes builder: "eqKeyBuilder_Build env = spec_eqKeyBuilder_Build"
    and nonempty: "fs \<noteq> []"
    and field: "f \<in> set (GetActiveIndexedFields cl)"
    and sel: "s \<in> set fs" "SelField s = FieldName f" "SelMatcher s = EQ"
    and type: "indexable (FieldDataType f)"
  shows "\<exists>plan. BuildSecondaryIndexKeys env cl fs = Inr plan \<and> QueryType plan = EQUAL"
proof -
  have tot: "\<And>ps. \<exists>k. encoder env cl ps = Inr k"
    by (simp add: encoder_def)
  obtain plans where plans: "eqPlan env cl fs = Inr plans"
      "\<forall>p \<in> set plans. QueryType p = EQUAL"
      "\<forall>f \<in> set (GetActiveIndexedFields cl). eq_literals fs (FieldName f) \<noteq> [] \<longrightarrow>
            (\<exists>p \<in> set plans. DataType p = FieldDataType f)"
    unfolding eqPlan_def builder
    using spec_eq_plans [of "encoder env cl" "buildIndexParts env" fs "GetActiveIndexedFields cl", OF tot]
    by blast
  from sel have "eq_literals fs (FieldName f) \<noteq> []"
    by (simp add: eq_literals_nonempty)
  with plans(3) field obtain p where p: "p \<in> set plans" "DataType p = FieldDataType f" by blast
  from p(2) type have "indexedDataType p"
    by (simp add: indexedDataType_indexable)
  with p(1) have "list_ex indexedDataType plans"
    unfolding list_ex_iff by blast
  then obtain plan where plan: "first_indexed plans = Some plan"
    using first_indexed_None_iff [of plans] by (cases "first_indexed plans") auto
  then have "plan \<in> set plans" by (simp add: first_indexed_Some)
  with plans(2) have "QueryType plan = EQUAL" by blast
  moreover from field have "GetActiveIndexedFields cl \<noteq> []" by auto
  ultimately show ?thesis
    using nonempty plans(1) plan by (simp add: BuildSecondaryIndexKeys_def)
qed

theorem BuildSecondaryIndexKeys_prefers_equality_witness:
  "\<exists>plan. BuildSecondaryIndexKeys env0 (coll0 Int64Type) [age_eq_30] = Inr plan
      \<and> QueryType plan = EQUAL"
  using BuildSecondaryIndexKeys_prefers_equality
    [of env0 "[age_eq_30]"
        "\<lparr>FieldName = ''age'', FieldDataType = Int64Type, Indexed = True, State = FieldActive\<rparr>"
        "coll0 Int64Type" age_eq_30]
  by (simp add: env0_def coll0_def age_eq_30_def GetActiveIndexedFields_def indexable_def)






subsection \<open>The reader over the secondary index\<close>

lemma Next_latched: "err it = Some e \<Longrightarrow> Next it row = Some (False, row, it)"
  by (simp add: Next_def)

lemma Next_times_latched:
  "err it = Some e \<Longrightarrow> Next_times n it row = Some (replicate n False, row, it)"
  by (induction n) (simp_all add: Next_latched)

lemma Next_latches_False:
  "err it = None \<Longrightarrow> Next it row = Some (b, row', it') \<Longrightarrow> err it' = Some e \<Longrightarrow> \<not> b \<and> row' = row"
  by (auto simp: Next_def Iterator_Next_def Let_def tx_Read_def
      split: if_splits list.splits iter_event.splits sum.splits option.splits prod.splits)

lemma Next_absent_row:
  assumes "err it = None" and "interrupted (kvIter it) = None"
    and "events (kvIter it) = Item indexRow # rest"
    and "FromBinary (EncodedTableIndexName (coll it)) (Key indexRow) = Inr idxKey"
    and "PrimaryKeyPos \<le> length (indexParts idxKey)"
    and "pk = SerializeToBytes (NewKey (EncodedName (coll it))
                 (drop PrimaryKeyPos (indexParts idxKey)))"
    and "fault (tx it) pk = None" and "kv (tx it) pk = None"
  shows "Next it row =
     Some (False, row,
           it\<lparr>kvIter := (kvIter it)\<lparr>events := rest\<rparr>,
              tx := (tx it)\<lparr>oplog := oplog (tx it) @ [OpRead pk]\<rparr>\<rparr>)"
  using assms
  by (simp add: Next_def Iterator_Next_def Let_def tx_Read_def)

lemma pk_bytes_1: "pk_bytes 1 = [100, 21, 1]"
  by (simp add: pk_bytes_def SerializeToBytes_def NewKey_def subspace_Pack_def tuple_Pack_def
      byte_len.simps)

lemma pk_bytes_2: "pk_bytes 2 = [100, 21, 2]"
  by (simp add: pk_bytes_def SerializeToBytes_def NewKey_def subspace_Pack_def tuple_Pack_def
      byte_len.simps)

lemma FromBinary_hit:
  "- (2 ^ 63) \<le> k \<Longrightarrow> k < 2 ^ 63 \<Longrightarrow>
     FromBinary (EncodedTableIndexName (coll reader0)) (Key (hit k)) = Inr (idx_key k)"
  using FromBinary_SerializeToBytes
    [of "[PString ''skey'', PString ''kvs'', PString ''age'', PInt 0, PInt 30, PInt 0, PInt k]"
        "[105]"]
  by (simp add: reader0_def coll0_def hit_def idx_key_def)

lemma Next_reader0: "Next reader0 row0 = Some (False, row0, reader1)"
proof -
  have dec: "FromBinary (EncodedTableIndexName (coll reader0)) (Key (hit 1)) = Inr (idx_key 1)"
    by (rule FromBinary_hit) simp_all
  have pk: "pk_bytes 1 = SerializeToBytes (NewKey (EncodedName (coll reader0))
               (drop PrimaryKeyPos (indexParts (idx_key 1))))"
    by (simp add: pk_bytes_def reader0_def coll0_def PrimaryKeyPos_def idx_key_def NewKey_def)
  have absent: "fault (tx reader0) (pk_bytes 1) = None" "kv (tx reader0) (pk_bytes 1) = None"
    by (simp_all add: reader0_def tx1_def pk_bytes_1 pk_bytes_2)
  have "Next reader0 row0 =
     Some (False, row0,
           reader0\<lparr>kvIter := (kvIter reader0)\<lparr>events := [Item (hit 2)]\<rparr>,
                   tx := (tx reader0)\<lparr>oplog := oplog (tx reader0) @ [OpRead (pk_bytes 1)]\<rparr>\<rparr>)"
    using dec pk absent
    by (intro Next_absent_row [where indexRow = "hit 1" and idxKey = "idx_key 1"])
       (simp_all add: reader0_def PrimaryKeyPos_def idx_key_def NewKey_def)
  then show ?thesis by (simp add: reader1_def reader0_def tx1_def)
qed

text \<open>
  C4, as stated, fails. The reader is given two hits; the primary row of the first is
  absent and the one of the second exists. \<open>Next\<close> consumes the first hit and returns
  false with no error, the second hit still in the iterator, so a caller looping on
  \<open>Next\<close> gets no row at all, although the document of key 2 exists.
\<close>

theorem Next_skip_counterexample:
  "events (kvIter reader0) = [Item (hit 1), Item (hit 2)]
   \<and> kv (tx reader0) (pk_bytes 1) = None
   \<and> kv (tx reader0) (pk_bytes 2) = Some doc2
   \<and> Next reader0 row0 = Some (False, row0, reader1)
   \<and> err reader1 = None
   \<and> events (kvIter reader1) = [Item (hit 2)]
   \<and> collect reader0 row0 = Some ([], reader1)"
proof -
  have "collect reader0 row0 = Some ([], reader1)"
    by (simp add: collect.simps [of reader0 row0] Next_reader0)
  then show ?thesis
    by (simp add: Next_reader0) (simp add: reader0_def reader1_def tx1_def pk_bytes_1 pk_bytes_2)
qed

text \<open>
  C4, amended. When the primary row of a secondary hit is absent, \<open>Next\<close> consumes that
  hit, performs the point read, leaves the caller's row untouched, records no error and
  returns false. It does not itself go on to the following hit, which stays in the
  iterator for a further call.
\<close>

theorem Next_absent_primary_row:
  assumes "err it = None" and "interrupted (kvIter it) = None"
    and "events (kvIter it) = Item indexRow # rest"
    and "FromBinary (EncodedTableIndexName (coll it)) (Key indexRow) = Inr idxKey"
    and "PrimaryKeyPos \<le> length (indexParts idxKey)"
    and "pk = SerializeToBytes (NewKey (EncodedName (coll it))
                 (drop PrimaryKeyPos (indexParts idxKey)))"
    and "fault (tx it) pk = None" and "kv (tx it) pk = None"
  shows "Next it row =
     Some (False, row,
           it\<lparr>kvIter := (kvIter it)\<lparr>events := rest\<rparr>,
              tx := (tx it)\<lparr>oplog := oplog (tx it) @ [OpRead pk]\<rparr>\<rparr>)"
  using assms by (rule Next_absent_row)

theorem Next_absent_primary_row_witness:
  "Next reader0 row0 =
     Some (False, row0,
           reader0\<lparr>kvIter := (kvIter reader0)\<lparr>events := [Item (hit 2)]\<rparr>,
                   tx := (tx reader0)\<lparr>oplog := oplog (tx reader0) @ [OpRead (pk_bytes 1)]\<rparr>\<rparr>)"
proof -
  have dec: "FromBinary (EncodedTableIndexName (coll reader0)) (Key (hit 1)) = Inr (idx_key 1)"
    by (rule FromBinary_hit) simp_all
  have pk: "pk_bytes 1 = SerializeToBytes (NewKey (EncodedName (coll reader0))
               (drop PrimaryKeyPos (indexParts (idx_key 1))))"
    by (simp add: pk_bytes_def reader0_def coll0_def PrimaryKeyPos_def idx_key_def NewKey_def)
  have absent: "fault (tx reader0) (pk_bytes 1) = None" "kv (tx reader0) (pk_bytes 1) = None"
    by (simp_all add: reader0_def tx1_def pk_bytes_1 pk_bytes_2)
  show ?thesis
    using dec pk absent
    by (intro Next_absent_primary_row [where indexRow = "hit 1" and idxKey = "idx_key 1"])
       (simp_all add: reader0_def PrimaryKeyPos_def idx_key_def NewKey_def)
qed

text \<open>
  C10. Once the reader has recorded an error, every further call of \<open>Next\<close> returns
  false and changes nothing, neither the iterator nor the log of operations of the
  transaction, and \<open>Interrupted\<close> returns that error. A call that records an error returns
  false, and the error comes from the interruption of the underlying iterator, from the
  decoding of the key, or from the point read of the primary row.
\<close>

theorem Next_error_latched:
  "(err it = Some e \<longrightarrow>
      Next_times n it row = Some (replicate n False, row, it) \<and> Interrupted it = Some e)
   \<and> (err it = None \<and> Next it row = Some (b, row', it') \<and> err it' = Some e \<longrightarrow>
      \<not> b \<and> Next_times n it' row' = Some (replicate n False, row', it')
      \<and> Interrupted it' = Some e)
   \<and> (err it = None \<and> interrupted (kvIter it) = Some e \<longrightarrow>
      Next it row = Some (False, row, it\<lparr>err := Some e\<rparr>))
   \<and> (err it = None \<and> interrupted (kvIter it) = None
        \<and> events (kvIter it) = Item indexRow # rest
        \<and> FromBinary (EncodedTableIndexName (coll it)) (Key indexRow) = Inl e \<longrightarrow>
      Next it row = Some (False, row, it\<lparr>kvIter := (kvIter it)\<lparr>events := rest\<rparr>, err := Some e\<rparr>))
   \<and> (err it = None \<and> interrupted (kvIter it) = None
        \<and> events (kvIter it) = Item indexRow # rest
        \<and> FromBinary (EncodedTableIndexName (coll it)) (Key indexRow) = Inr idxKey
        \<and> PrimaryKeyPos \<le> length (indexParts idxKey)
        \<and> pk = SerializeToBytes (NewKey (EncodedName (coll it))
                   (drop PrimaryKeyPos (indexParts idxKey)))
        \<and> fault (tx it) pk = Some e \<longrightarrow>
      Next it row =
        Some (False, row,
              it\<lparr>kvIter := (kvIter it)\<lparr>events := rest\<rparr>,
                 tx := (tx it)\<lparr>oplog := oplog (tx it) @ [OpRead pk]\<rparr>, err := Some e\<rparr>))"
proof (intro conjI impI)
  assume "err it = Some e"
  then show "Next_times n it row = Some (replicate n False, row, it)"
    by (rule Next_times_latched)
  show "Interrupted it = Some e" using \<open>err it = Some e\<close> by (simp add: Interrupted_def)
next
  assume a: "err it = None \<and> Next it row = Some (b, row', it') \<and> err it' = Some e"
  then show "\<not> b" using Next_latches_False by blast
  from a show "Next_times n it' row' = Some (replicate n False, row', it')"
    by (simp add: Next_times_latched)
  from a show "Interrupted it' = Some e" by (simp add: Interrupted_def)
next
  assume "err it = None \<and> interrupted (kvIter it) = Some e"
  then show "Next it row = Some (False, row, it\<lparr>err := Some e\<rparr>)"
    by (simp add: Next_def)
next
  assume "err it = None \<and> interrupted (kvIter it) = None
        \<and> events (kvIter it) = Item indexRow # rest
        \<and> FromBinary (EncodedTableIndexName (coll it)) (Key indexRow) = Inl e"
  then show "Next it row =
      Some (False, row, it\<lparr>kvIter := (kvIter it)\<lparr>events := rest\<rparr>, err := Some e\<rparr>)"
    by (simp add: Next_def Iterator_Next_def)
next
  assume "err it = None \<and> interrupted (kvIter it) = None
        \<and> events (kvIter it) = Item indexRow # rest
        \<and> FromBinary (EncodedTableIndexName (coll it)) (Key indexRow) = Inr idxKey
        \<and> PrimaryKeyPos \<le> length (indexParts idxKey)
        \<and> pk = SerializeToBytes (NewKey (EncodedName (coll it))
                   (drop PrimaryKeyPos (indexParts idxKey)))
        \<and> fault (tx it) pk = Some e"
  then show "Next it row =
        Some (False, row,
              it\<lparr>kvIter := (kvIter it)\<lparr>events := rest\<rparr>,
                 tx := (tx it)\<lparr>oplog := oplog (tx it) @ [OpRead pk]\<rparr>, err := Some e\<rparr>)"
    by (clarsimp simp add: Next_def Iterator_Next_def Let_def tx_Read_def)
qed

theorem Next_error_latched_witness:
  "Next_times 3 (reader0\<lparr>err := Some e0\<rparr>) row0
      = Some ([False, False, False], row0, reader0\<lparr>err := Some e0\<rparr>)
   \<and> Interrupted (reader0\<lparr>err := Some e0\<rparr>) = Some e0
   \<and> Next reader_interrupted row0 = Some (False, row0, reader_interrupted\<lparr>err := Some e0\<rparr>)
   \<and> Next_times 2 (reader_interrupted\<lparr>err := Some e0\<rparr>) row0
      = Some ([False, False], row0, reader_interrupted\<lparr>err := Some e0\<rparr>)
   \<and> Next reader_badkey row0
      = Some (False, row0,
              reader_badkey\<lparr>kvIter := (kvIter reader_badkey)\<lparr>events := [Item (hit 2)]\<rparr>,
                            err := Some err_not_in_subspace\<rparr>)
   \<and> Next reader_fault row0
      = Some (False, row0,
              reader_fault\<lparr>kvIter := (kvIter reader_fault)\<lparr>events := [Item (hit 2)]\<rparr>,
                           tx := (tx reader_fault)\<lparr>oplog := [OpRead (pk_bytes 1)]\<rparr>,
                           err := Some e0\<rparr>)"
proof -
  note latched = Next_error_latched [THEN conjunct1, rule_format]
  note latching = Next_error_latched [THEN conjunct2, THEN conjunct1, rule_format]
  note from_iter = Next_error_latched [THEN conjunct2, THEN conjunct2, THEN conjunct1, rule_format]
  note from_key = Next_error_latched
    [THEN conjunct2, THEN conjunct2, THEN conjunct2, THEN conjunct1, rule_format]
  note from_read = Next_error_latched
    [THEN conjunct2, THEN conjunct2, THEN conjunct2, THEN conjunct2, rule_format]
  have r3: "replicate 3 False = [False, False, False]" "replicate 2 False = [False, False]"
    by (simp_all add: numeral_3_eq_3 numeral_2_eq_2)
  have "err (reader0\<lparr>err := Some e0\<rparr>) = Some e0" by simp
  from latched [OF this, of 3 row0]
  have c1: "Next_times 3 (reader0\<lparr>err := Some e0\<rparr>) row0
      = Some ([False, False, False], row0, reader0\<lparr>err := Some e0\<rparr>)
      \<and> Interrupted (reader0\<lparr>err := Some e0\<rparr>) = Some e0"
    by (simp only: r3)
  have "err reader_interrupted = None \<and> interrupted (kvIter reader_interrupted) = Some e0"
    by (simp add: reader_interrupted_def reader0_def)
  from from_iter [OF this, of row0]
  have c3: "Next reader_interrupted row0
      = Some (False, row0, reader_interrupted\<lparr>err := Some e0\<rparr>)" .
  have "err reader_interrupted = None
      \<and> Next reader_interrupted row0 = Some (False, row0, reader_interrupted\<lparr>err := Some e0\<rparr>)
      \<and> err (reader_interrupted\<lparr>err := Some e0\<rparr>) = Some e0"
    using c3 by (simp add: reader_interrupted_def reader0_def)
  from latching [OF this, of 2]
  have c2: "Next_times 2 (reader_interrupted\<lparr>err := Some e0\<rparr>) row0
      = Some ([False, False], row0, reader_interrupted\<lparr>err := Some e0\<rparr>)"
    by (simp only: r3)
  have "err reader_badkey = None \<and> interrupted (kvIter reader_badkey) = None
      \<and> events (kvIter reader_badkey) = Item \<lparr>Key = [0], Data = doc2\<rparr> # [Item (hit 2)]
      \<and> FromBinary (EncodedTableIndexName (coll reader_badkey)) (Key \<lparr>Key = [0], Data = doc2\<rparr>)
          = Inl err_not_in_subspace"
    by (simp add: FromBinary_def subspace_Unpack_def reader_badkey_def reader0_def coll0_def)
  from from_key [OF this, of row0]
  have c4: "Next reader_badkey row0
      = Some (False, row0,
              reader_badkey\<lparr>kvIter := (kvIter reader_badkey)\<lparr>events := [Item (hit 2)]\<rparr>,
                            err := Some err_not_in_subspace\<rparr>)" .
  have dec: "FromBinary (EncodedTableIndexName (coll reader_fault)) (Key (hit 1))
      = Inr (idx_key 1)"
    using FromBinary_hit [of 1] by (simp add: reader_fault_def reader0_def)
  have pk: "pk_bytes 1 = SerializeToBytes (NewKey (EncodedName (coll reader_fault))
               (drop PrimaryKeyPos (indexParts (idx_key 1))))"
    by (simp add: pk_bytes_def reader_fault_def reader0_def coll0_def PrimaryKeyPos_def
        idx_key_def NewKey_def)
  have len: "PrimaryKeyPos \<le> length (indexParts (idx_key 1))"
    by (simp add: PrimaryKeyPos_def idx_key_def NewKey_def)
  have st: "err reader_fault = None" "interrupted (kvIter reader_fault) = None"
      "events (kvIter reader_fault) = Item (hit 1) # [Item (hit 2)]"
      "fault (tx reader_fault) (pk_bytes 1) = Some e0" "oplog (tx reader_fault) = []"
    by (simp_all add: reader_fault_def reader0_def tx1_def)
  from st dec pk len
  have "err reader_fault = None \<and> interrupted (kvIter reader_fault) = None
      \<and> events (kvIter reader_fault) = Item (hit 1) # [Item (hit 2)]
      \<and> FromBinary (EncodedTableIndexName (coll reader_fault)) (Key (hit 1)) = Inr (idx_key 1)
      \<and> PrimaryKeyPos \<le> length (indexParts (idx_key 1))
      \<and> pk_bytes 1 = SerializeToBytes (NewKey (EncodedName (coll reader_fault))
                   (drop PrimaryKeyPos (indexParts (idx_key 1))))
      \<and> fault (tx reader_fault) (pk_bytes 1) = Some e0"
    by blast
  from from_read [OF this, of row0]
  have c5: "Next reader_fault row0
      = Some (False, row0,
              reader_fault\<lparr>kvIter := (kvIter reader_fault)\<lparr>events := [Item (hit 2)]\<rparr>,
                           tx := (tx reader_fault)
                             \<lparr>oplog := oplog (tx reader_fault) @ [OpRead (pk_bytes 1)]\<rparr>,
                           err := Some e0\<rparr>)" .
  from c1 c2 c3 c4 c5 st(5) show ?thesis by (simp only: append_Nil simp_thms)
qed

subsection \<open>The key generator and the document it is given\<close>

lemma keeps_refl: "keeps n h h"
  by (simp add: keeps_def)

lemma keeps_trans: "keeps n h h1 \<Longrightarrow> keeps n h1 h2 \<Longrightarrow> keeps n h h2"
  by (auto simp: keeps_def)

lemma keeps_length: "keeps n h h' \<Longrightarrow> n \<le> length h \<Longrightarrow> n \<le> length h'"
  by (simp add: keeps_def)

lemma new_bytes_keeps:
  assumes "n \<le> length h" and "new_bytes h bs = (h', s)"
  shows "keeps n h h' \<and> n \<le> s_arr s \<and> s_arr s = length h"
  using assms by (auto simp: new_bytes_def keeps_def nth_append)

lemma write_at_keeps: "n \<le> a \<Longrightarrow> keeps n h (write_at h a pos bs)"
  by (simp add: write_at_def keeps_def)

lemma append_bytes_keeps:
  assumes "n \<le> length h" and "n \<le> s_arr s" and "append_bytes h s bs = (h', s')"
  shows "keeps n h h' \<and> n \<le> s_arr s'"
proof (cases "s_len s + length bs \<le> s_cap s")
  case True
  with assms(3) have "h' = write_at h (s_arr s) (s_off s + s_len s) bs"
    and "s' = s\<lparr>s_len := s_len s + length bs\<rparr>"
    by (simp_all add: append_bytes_def)
  with assms(2) show ?thesis by (simp add: write_at_keeps)
next
  case False
  with assms(3) have "new_bytes h (slice_bytes h s @ bs) = (h', s')"
    by (simp add: append_bytes_def)
  with assms(1) show ?thesis
    using new_bytes_keeps [of n h "slice_bytes h s @ bs" h' s'] by simp
qed

lemma Set_frame_keeps:
  assumes "Set_frame jset" and "jset h d v key = (h', d', e)"
    and "n \<le> length h" and "n \<le> s_arr d"
  shows "keeps n h h' \<and> (d' = nil_slice \<or> n \<le> s_arr d')"
proof -
  have "case jset h d v key of
        (h', d', e) \<Rightarrow>
          length h \<le> length h'
          \<and> (\<forall>a<length h. a \<noteq> s_arr d \<longrightarrow> h' ! a = h ! a)
          \<and> (d' = nil_slice \<or> s_arr d' = s_arr d \<or> length h \<le> s_arr d')"
    using assms(1) [unfolded Set_frame_def] by (elim allE)
  then have f: "length h \<le> length h'"
      "\<And>a. a < length h \<Longrightarrow> a \<noteq> s_arr d \<Longrightarrow> h' ! a = h ! a"
      "d' = nil_slice \<or> s_arr d' = s_arr d \<or> length h \<le> s_arr d'"
    by (simp_all add: assms(2))
  have "h' ! a = h ! a" if "a < n" for a
    using that assms(3,4) by (intro f(2)) simp_all
  with f(1) have "keeps n h h'"
    by (simp add: keeps_def)
  moreover from f(3) assms(3,4) have "d' = nil_slice \<or> n \<le> s_arr d'"
    by linarith
  ultimately show ?thesis by simp
qed

lemma setKeyInDoc_keeps:
  assumes frame: "Set_frame (jsonparser_Set env)" and n: "n \<le> length h"
    and call: "setKeyInDoc env h k field jsonVal = (e, h', k')"
  shows "keeps n h h' \<and> (document k' = nil_slice \<or> n \<le> s_arr (document k'))
     \<and> keysForResp k' = keysForResp k"
proof -
  obtain h1 tmp where mk: "make_bytes h (s_len (document k)) = (h1, tmp)"
    by (cases "make_bytes h (s_len (document k))")
  define h2 where "h2 = copy_bytes h1 tmp (document k)"
  obtain h3 d e3 where st:
    "jsonparser_Set env h2 tmp (getJsonQuotedValue (Field_Type field) jsonVal)
       (Field_FieldName field) = (h3, d, e3)"
    by (cases "jsonparser_Set env h2 tmp (getJsonQuotedValue (Field_Type field) jsonVal)
       (Field_FieldName field)")
  from call mk st have res: "h' = h3" "k' = k\<lparr>document := d\<rparr>"
    by (simp_all add: setKeyInDoc_def Let_def h2_def)
  from mk n have k1: "keeps n h h1" "n \<le> s_arr tmp"
    using new_bytes_keeps [of n h "replicate (s_len (document k)) 0" h1 tmp]
    by (simp_all add: make_bytes_def)
  from k1(2) have k2: "keeps n h1 h2"
    by (simp add: h2_def copy_bytes_def write_at_keeps)
  from k1(1) k2 have k12: "keeps n h h2"
    by (rule keeps_trans)
  with n have "n \<le> length h2"
    by (simp add: keeps_length)
  with frame st k1(2) have k3: "keeps n h2 h3" "d = nil_slice \<or> n \<le> s_arr d"
    using Set_frame_keeps
      [of "jsonparser_Set env" h2 tmp "getJsonQuotedValue (Field_Type field) jsonVal"
          "Field_FieldName field" h3 d e3 n]
    by simp_all
  from k12 k3(1) have "keeps n h h3"
    by (rule keeps_trans)
  with k3(2) res show ?thesis by simp
qed

lemma addKeyToResp_keeps:
  assumes n: "n \<le> length h"
    and resp: "s_len (keysForResp k) = 0 \<or> n \<le> s_arr (keysForResp k)"
    and call: "addKeyToResp h k field jsonVal = (h', k')"
  shows "keeps n h h' \<and> document k' = document k
     \<and> (s_len (keysForResp k') = 0 \<or> n \<le> s_arr (keysForResp k'))"
proof -
  define content where
    "content = quote # str_bytes (Field_FieldName field) @ [quote, colon]
       @ getJsonQuotedValue (Field_Type field) jsonVal"
  obtain h1 kv where nb: "new_bytes h content = (h1, kv)"
    by (cases "new_bytes h content")
  from n nb have k1: "keeps n h h1" "n \<le> s_arr kv"
    using new_bytes_keeps [of n h content h1 kv] by simp_all
  from k1(1) n have n1: "n \<le> length h1"
    by (simp add: keeps_length)
  show ?thesis
  proof (cases "s_len (keysForResp k) = 0")
    case True
    with call nb have "h' = h1" "k' = k\<lparr>keysForResp := kv\<rparr>"
      by (simp_all add: addKeyToResp_def Let_def content_def)
    with k1 show ?thesis by simp
  next
    case False
    with resp have r0: "n \<le> s_arr (keysForResp k)" by simp
    obtain h2 r where a1: "append_bytes h1 (keysForResp k) [comma] = (h2, r)"
      by (cases "append_bytes h1 (keysForResp k) [comma]")
    obtain h3 r' where a2: "append_bytes h2 r (slice_bytes h2 kv) = (h3, r')"
      by (cases "append_bytes h2 r (slice_bytes h2 kv)")
    from call nb a1 a2 False have res: "h' = h3" "k' = k\<lparr>keysForResp := r'\<rparr>"
      by (simp_all add: addKeyToResp_def Let_def content_def)
    from n1 r0 a1 have k2: "keeps n h1 h2" "n \<le> s_arr r"
      using append_bytes_keeps [of n h1 "keysForResp k" "[comma]" h2 r] by simp_all
    from k2(1) n1 have n2: "n \<le> length h2"
      by (simp add: keeps_length)
    from n2 k2(2) a2 have k3: "keeps n h2 h3" "n \<le> s_arr r'"
      using append_bytes_keeps [of n h2 r "slice_bytes h2 kv" h3 r'] by simp_all
    from k1(1) k2(1) k3(1) have "keeps n h h3"
      by (blast intro: keeps_trans)
    with k3(2) res show ?thesis by simp
  qed
qed

lemma holds_copy_forceInsert:
  "holds_copy n doc (k\<lparr>forceInsert := b\<rparr>) = holds_copy n doc k"
  by (simp add: holds_copy_def)

lemma generate_field_keeps:
  assumes frame: "Set_frame (jsonparser_Set env)" and n: "n \<le> length h"
    and inv: "holds_copy n doc k"
    and call: "generate_field env tbl field h w k = (r, h', w', k')"
  shows "keeps n h h' \<and> holds_copy n doc k'"
proof -
  obtain jsonVal dtp e where g:
    "jsonparser_Get env (slice_bytes h (document k)) (Field_FieldName field) = (jsonVal, dtp, e)"
    by (cases "jsonparser_Get env (slice_bytes h (document k)) (Field_FieldName field)")
  from inv have resp: "s_len (keysForResp k) = 0 \<or> n \<le> s_arr (keysForResp k)"
    by (simp add: holds_copy_def)
  have same: "keeps n h h \<and> holds_copy n doc k"
    using inv by (simp add: keeps_refl)
  consider (missing) "\<not> autoGenerate field jsonVal dtp e" "e \<noteq> None"
    | (gen) "autoGenerate field jsonVal dtp e"
    | (given) "\<not> autoGenerate field jsonVal dtp e" "e = None"
    by blast
  then show ?thesis
  proof cases
    case missing
    with call g have "h' = h" "k' = k"
      by (simp_all add: generate_field_def)
    with same show ?thesis by simp
  next
    case gen
    obtain gr w1 where gt: "get env w tbl field = (gr, w1)"
      by (cases "get env w tbl field")
    show ?thesis
    proof (cases gr)
      case (Inl x)
      from g gen gt Inl call have "h' = h" "k' = k"
        by (simp_all add: generate_field_def)
      with same show ?thesis by simp
    next
      case (Inr jv)
      obtain jsonVal1 v where jv: "jv = (jsonVal1, v)"
        by (cases jv)
      obtain se h1 k1 where sk: "setKeyInDoc env h k field jsonVal1 = (se, h1, k1)"
        by (cases "setKeyInDoc env h k field jsonVal1")
      from frame n sk have s1: "keeps n h h1"
          "document k1 = nil_slice \<or> n \<le> s_arr (document k1)"
          "keysForResp k1 = keysForResp k"
        using setKeyInDoc_keeps [of env n h k field jsonVal1 se h1 k1] by simp_all
      from s1(2,3) resp have inv1: "holds_copy n doc k1"
        by (auto simp: holds_copy_def)
      from s1(1) n have n1: "n \<le> length h1"
        by (simp add: keeps_length)
      show ?thesis
      proof (cases se)
        case (Some x)
        from g gen gt Inr jv sk Some call have "h' = h1" "k' = k1"
          by (simp_all add: generate_field_def)
        with s1(1) inv1 show ?thesis by simp
      next
        case None
        define k2 where
          "k2 = (if Field_Type field = Int64Type \<or> Field_Type field = DateTimeType
                 then k1\<lparr>forceInsert := True\<rparr> else k1)"
        obtain h2 k3 where ak: "addKeyToResp h1 k2 field jsonVal1 = (h2, k3)"
          by (cases "addKeyToResp h1 k2 field jsonVal1")
        from g gen gt Inr jv sk None ak call have res: "h' = h2" "k' = k3"
          by (simp_all add: generate_field_def Let_def k2_def)
        from inv1 have inv2: "holds_copy n doc k2"
          by (simp add: k2_def holds_copy_forceInsert)
        then have "s_len (keysForResp k2) = 0 \<or> n \<le> s_arr (keysForResp k2)"
          by (simp add: holds_copy_def)
        with n1 ak have a: "keeps n h1 h2" "document k3 = document k2"
            "s_len (keysForResp k3) = 0 \<or> n \<le> s_arr (keysForResp k3)"
          using addKeyToResp_keeps [of n h1 k2 field jsonVal1 h2 k3] by simp_all
        from inv2 a(2,3) have "holds_copy n doc k3"
          by (simp add: holds_copy_def)
        moreover from s1(1) a(1) have "keeps n h h2"
          by (rule keeps_trans)
        ultimately show ?thesis using res by simp
      qed
    qed
  next
    case given
    show ?thesis
    proof (cases "NewValue env (Field_Type field) jsonVal")
      case (Inl x)
      from g given Inl call have "h' = h" "k' = k"
        by (simp_all add: generate_field_def)
      with same show ?thesis by simp
    next
      case (Inr v)
      obtain h2 k3 where ak: "addKeyToResp h k field jsonVal = (h2, k3)"
        by (cases "addKeyToResp h k field jsonVal")
      from g given Inr ak call have res: "h' = h2" "k' = k3"
        by (simp_all add: generate_field_def)
      from n resp ak have a: "keeps n h h2" "document k3 = document k"
          "s_len (keysForResp k3) = 0 \<or> n \<le> s_arr (keysForResp k3)"
        using addKeyToResp_keeps [of n h k field jsonVal h2 k3] by simp_all
      from inv a(2,3) have "holds_copy n doc k3"
        by (simp add: holds_copy_def)
      with a(1) res show ?thesis by simp
    qed
  qed
qed

lemma generate_fields_keeps:
  assumes frame: "Set_frame (jsonparser_Set env)"
  shows "n \<le> length h \<Longrightarrow> holds_copy n doc k \<Longrightarrow>
     generate_fields env tbl flds h w k parts = (r, h', w', k') \<Longrightarrow>
     keeps n h h' \<and> holds_copy n doc k'"
proof (induction flds arbitrary: h w k parts)
  case Nil
  then show ?case by (simp add: keeps_refl)
next
  case (Cons field rest)
  obtain r1 h1 w1 k1 where st: "generate_field env tbl field h w k = (r1, h1, w1, k1)"
    by (cases "generate_field env tbl field h w k") auto
  from frame Cons.prems(1,2) st have s1: "keeps n h h1" "holds_copy n doc k1"
    using generate_field_keeps [of env n h doc k tbl field w r1 h1 w1 k1] by simp_all
  show ?case
  proof (cases r1)
    case (Inl x)
    with Cons.prems(3) st have "h' = h1" "k' = k1" by simp_all
    with s1 show ?thesis by simp
  next
    case (Inr p)
    with Cons.prems(3) st have
      "generate_fields env tbl rest h1 w1 k1 (parts @ [p]) = (r, h', w', k')"
      by simp
    moreover from s1(1) Cons.prems(1) have "n \<le> length h1"
      by (simp add: keeps_length)
    ultimately have "keeps n h1 h' \<and> holds_copy n doc k'"
      using Cons.IH s1(2) by blast
    with s1(1) show ?thesis
      by (blast intro: keeps_trans)
  qed
qed

lemma generate_keeps:
  assumes frame: "Set_frame (jsonparser_Set env)" and n: "n \<le> length h"
    and inv: "holds_copy n doc k"
    and call: "generate env h w k tbl = (r, h', w', k')"
  shows "keeps n h h' \<and> holds_copy n doc k'"
proof -
  obtain r1 h1 w1 k1 where st:
    "generate_fields env tbl (Fields (index k)) h w k [] = (r1, h1, w1, k1)"
    by (cases "generate_fields env tbl (Fields (index k)) h w k []") auto
  with call have "h' = h1" "k' = k1"
    by (cases r1; simp add: generate_def)+
  with frame n inv st show ?thesis
    using generate_fields_keeps [of env n h doc k tbl "Fields (index k)" w "[]" r1 h1 w1 k1]
    by simp
qed

lemma Set_frame_Set_digit: "Set_frame Set_digit"
  by (simp add: Set_frame_def Set_digit_def write_at_def)

lemma dec_int_1: "dec_int 1 = ''1''"
  by (simp add: dec_int_def dec_nat.simps numeral_eq_Suc)

lemma dec_int_7: "dec_int 7 = ''7''"
  by (simp add: dec_int_def dec_nat.simps numeral_eq_Suc)

lemma generate_example:
  "generate kenv0 h0 0 (newKeyGenerator doc0 idx0) [100] =
     (Inr (NewKey [100] [PInt 1, PInt 7]),
      [doc_bytes,
       [123, 34, 97, 34, 58, 49, 44, 34, 98, 34, 58, 48, 125],
       [34, 97, 34, 58, 49],
       [123, 34, 97, 34, 58, 49, 44, 34, 98, 34, 58, 55, 125],
       [34, 98, 34, 58, 55],
       [34, 97, 34, 58, 49, 44],
       [34, 97, 34, 58, 49, 44, 34, 98, 34, 58, 55]],
      2,
      \<lparr>document = \<lparr>s_arr = 3, s_off = 0, s_len = 13, s_cap = 13\<rparr>,
       keysForResp = \<lparr>s_arr = 6, s_off = 0, s_len = 11, s_cap = 11\<rparr>,
       index = idx0, forceInsert = True\<rparr>)"
  by (simp add: generate_def generate_field_def autoGenerate_def newKeyGenerator_def
      idx0_def kenv0_def Get_digit_def Set_digit_def digit_pos_def h0_def doc0_def doc_bytes_def
      slice_bytes_def isNull_def zeroIntStringSlice_def str_bytes_def get_def
      NewIntValue_def dec_int_1 dec_int_7 setKeyInDoc_def getJsonQuotedValue_def
      make_bytes_def new_bytes_def copy_bytes_def write_at_def addKeyToResp_def
      append_bytes_def nil_slice_def quote_def colon_def comma_def Let_def
      nth_append numeral_eq_Suc)

text \<open>
  C9. \<open>generate\<close> does not change the document it was created with. Whatever the
  fields of the index are, however many of them are generated, and whether it returns a key
  or an error, the array of the slice handed to \<open>newKeyGenerator\<close>, and so the bytes of
  that slice, are afterwards what they were, as is every other array that existed before the
  call. The document the generator holds afterwards is the slice it was given, nil, or a
  slice of an array allocated during the call: what is written back is written to a copy.
  \<open>jsonparser.Set\<close> is any function that writes only to the array of the slice it is given
  and to arrays it allocates.
\<close>

theorem generate_keeps_document:
  assumes "Set_frame (jsonparser_Set env)"
    and "s_arr doc < length h"
    and "generate env h w (newKeyGenerator doc idx) tbl = (r, h', w', k')"
  shows "h' ! s_arr doc = h ! s_arr doc
     \<and> slice_bytes h' doc = slice_bytes h doc
     \<and> (\<forall>a<length h. h' ! a = h ! a)
     \<and> (document k' = doc \<or> document k' = nil_slice \<or> length h \<le> s_arr (document k'))"
proof -
  have "holds_copy (length h) doc (newKeyGenerator doc idx)"
    by (simp add: holds_copy_def newKeyGenerator_def nil_slice_def)
  with assms(1,3) have k: "keeps (length h) h h'" "holds_copy (length h) doc k'"
    using generate_keeps [of env "length h" h doc "newKeyGenerator doc idx" w tbl r h' w' k']
    by simp_all
  from k(1) have same: "\<forall>a<length h. h' ! a = h ! a" and len: "length h \<le> length h'"
    by (simp_all add: keeps_def)
  from same assms(2) have arr: "h' ! s_arr doc = h ! s_arr doc"
    by simp
  with assms(2) len have "slice_bytes h' doc = slice_bytes h doc"
    by (simp add: slice_bytes_def)
  with arr same k(2) show ?thesis
    by (simp add: holds_copy_def)
qed

theorem generate_keeps_document_witness:
  "generate kenv0 h0 0 (newKeyGenerator doc0 idx0) [100] =
     (Inr (NewKey [100] [PInt 1, PInt 7]),
      [doc_bytes,
       [123, 34, 97, 34, 58, 49, 44, 34, 98, 34, 58, 48, 125],
       [34, 97, 34, 58, 49],
       [123, 34, 97, 34, 58, 49, 44, 34, 98, 34, 58, 55, 125],
       [34, 98, 34, 58, 55],
       [34, 97, 34, 58, 49, 44],
       [34, 97, 34, 58, 49, 44, 34, 98, 34, 58, 55]],
      2,
      \<lparr>document = \<lparr>s_arr = 3, s_off = 0, s_len = 13, s_cap = 13\<rparr>,
       keysForResp = \<lparr>s_arr = 6, s_off = 0, s_len = 11, s_cap = 11\<rparr>,
       index = idx0, forceInsert = True\<rparr>)
   \<and> Set_frame (jsonparser_Set kenv0)
   \<and> s_arr doc0 < length h0
   \<and> slice_bytes h0 doc0 = doc_bytes
   \<and> slice_bytes
        [doc_bytes,
         [123, 34, 97, 34, 58, 49, 44, 34, 98, 34, 58, 48, 125],
         [34, 97, 34, 58, 49],
         [123, 34, 97, 34, 58, 49, 44, 34, 98, 34, 58, 55, 125],
         [34, 98, 34, 58, 55],
         [34, 97, 34, 58, 49, 44],
         [34, 97, 34, 58, 49, 44, 34, 98, 34, 58, 55]] doc0 = doc_bytes"
proof -
  have frame: "Set_frame (jsonparser_Set kenv0)"
    by (simp add: kenv0_def Set_frame_Set_digit)
  have alloc: "s_arr doc0 < length h0"
    by (simp add: doc0_def h0_def)
  have orig: "slice_bytes h0 doc0 = doc_bytes"
    by (simp add: slice_bytes_def doc0_def h0_def doc_bytes_def)
  note kept = generate_keeps_document [OF frame alloc generate_example]
  from kept have "slice_bytes
        [doc_bytes,
         [123, 34, 97, 34, 58, 49, 44, 34, 98, 34, 58, 48, 125],
         [34, 97, 34, 58, 49],
         [123, 34, 97, 34, 58, 49, 44, 34, 98, 34, 58, 55, 125],
         [34, 98, 34, 58, 55],
         [34, 97, 34, 58, 49, 44],
         [34, 97, 34, 58, 49, 44, 34, 98, 34, 58, 55]] doc0 = slice_bytes h0 doc0"
    by (rule conjunct2 [THEN conjunct1])
  with generate_example frame alloc orig show ?thesis
    by (simp only: simp_thms)
qed

end
